theory Spec2Isabelle
  imports Main
begin

section \<open>The session client (src/cdpClient.ts)\<close>

text \<open>
  The class \<^verbatim>\<open>CDPClient\<close> is embedded as a record of its private fields and one HOL
  function per method or inline handler. JavaScript numbers that only ever hold
  counters (\<^verbatim>\<open>messageId\<close>, \<^verbatim>\<open>retryCount\<close>) are natural numbers, the
  options are integers. Everything a method does to the outside world (settling a promise,
  invoking a registered observer, writing to or closing the socket, a log line handed to the
  log observer) is appended to the field \<open>effects\<close>, in program order.
\<close>

record CDPClientOptions =
  maxRetries :: int
  initialRetryDelay :: int
  maxRetryDelay :: int
  callTimeout :: int

definition DEFAULT_OPTIONS :: CDPClientOptions where
  "DEFAULT_OPTIONS =
     \<lparr>maxRetries = 10, initialRetryDelay = 1000, maxRetryDelay = 30000, callTimeout = 5000\<rparr>"

text \<open>The \<^verbatim>\<open>readyState\<close> of a WebSocket of the \<^verbatim>\<open>ws\<close> library.\<close>

datatype readyState = CONNECTING | OPEN | CLOSING | CLOSED

text \<open>Every \<^verbatim>\<open>new Error(...)\<close> of the class, one constructor per message.\<close>

datatype error =
    CannotConnectDisposed
  | InvalidPort int
  | ClientDisposed
  | HttpCreateFailed
  | EndpointUnreachable
  | DiscoveryTimedOut
  | ResponseReadError
  | ParseFailed
  | NoTargets
  | TargetNotFound
  | WebSocketCreateFailed
  | CannotSendDisposed
  | EmptyMethod
  | NotConnected
  | CallTimedOut int
  | SendFailed
  | CdpError string
  | ConnectionClosed
  | DisconnectedIntentionally

text \<open>
  The parameters of a call. The supervisor's only call is \<^verbatim>\<open>Runtime.evaluate\<close> with
  the action script, which is determined by the blocked-substring list spliced into it.
\<close>

datatype params = NoParams | Evaluate "string list"

datatype callbackName = OnDisconnect | OnReconnect | OnReconnectFailed

text \<open>Who awaits the promise of one \<^verbatim>\<open>doConnect()\<close>: \<^verbatim>\<open>connect()\<close>'s caller, or the
  retry timer's callback.\<close>

datatype caller = Initial | Retry

datatype logLine =
    LogConnected
  | LogMessageError
  | LogSocketError
  | LogSocketClosed
  | LogGivingUp int
  | LogReconnectingIn int nat int
  | LogReconnected
  | LogNullMessage
  | LogUnrecognizedMessage
  | LogParseFailed

datatype effect =
    Registered nat
  | Settled nat "error + string option"
  | Frame nat string params
  | SocketClose
  | HttpGet int
  | ConnectSettled "error option"
  | Fired callbackName
  | Log logLine

record CDPClient =
  ws :: "readyState option"
  messageId :: nat
  callbacks :: "nat list"
  timers :: "nat set"
  port :: int
  retryCount :: nat
  retryTimer :: "int option"
  intentionalDisconnect :: bool
  isDisposed :: bool
  options :: CDPClientOptions
  onDisconnectCb :: bool
  onReconnectCb :: bool
  onReconnectFailedCb :: bool
  onLogCb :: bool
  effects :: "effect list"

text \<open>
  \<open>ws\<close> is the socket handle: \<open>None\<close> for \<^verbatim>\<open>null\<close>, otherwise the \<^verbatim>\<open>readyState\<close> of
  the socket it refers to. \<open>callbacks\<close> is the \<^verbatim>\<open>Map\<close> of pending calls as the list of
  its keys in insertion order (the order in which \<^verbatim>\<open>rejectAllPending\<close> walks it); the
  entry of a key holds the \<^verbatim>\<open>resolve\<close>/\<^verbatim>\<open>reject\<close> pair and the timeout timer of the call
  with that id, and \<open>timers\<close> is the set of ids whose timeout timer is armed.
  \<open>retryTimer\<close> holds the delay the pending retry timer was armed with. The four observer
  slots record whether an observer is registered.
\<close>

definition newClient :: "CDPClientOptions \<Rightarrow> CDPClient" where
  "newClient opts =
     \<lparr>ws = None, messageId = 1, callbacks = [], timers = {}, port = 9222, retryCount = 0,
      retryTimer = None, intentionalDisconnect = False, isDisposed = False, options = opts,
      onDisconnectCb = False, onReconnectCb = False, onReconnectFailedCb = False,
      onLogCb = False, effects = []\<rparr>"

definition emit :: "effect \<Rightarrow> CDPClient \<Rightarrow> CDPClient" where
  "emit e c = c\<lparr>effects := effects c @ [e]\<rparr>"

definition onDisconnect :: "CDPClient \<Rightarrow> CDPClient" where
  "onDisconnect c = c\<lparr>onDisconnectCb := True\<rparr>"

definition onReconnect :: "CDPClient \<Rightarrow> CDPClient" where
  "onReconnect c = c\<lparr>onReconnectCb := True\<rparr>"

definition onReconnectFailed :: "CDPClient \<Rightarrow> CDPClient" where
  "onReconnectFailed c = c\<lparr>onReconnectFailedCb := True\<rparr>"

definition onLog :: "CDPClient \<Rightarrow> CDPClient" where
  "onLog c = c\<lparr>onLogCb := True\<rparr>"

definition isConnected :: "CDPClient \<Rightarrow> bool" where
  "isConnected c = (ws c = Some OPEN)"

definition log :: "logLine \<Rightarrow> CDPClient \<Rightarrow> CDPClient" where
  "log m c = (if onLogCb c then emit (Log m) c else c)"

text \<open>Invoking a lifecycle observer: \<^verbatim>\<open>try { if (this._onX) { this._onX(); } } catch {}\<close>.\<close>

definition fire :: "callbackName \<Rightarrow> CDPClient \<Rightarrow> CDPClient" where
  "fire n c =
     (if (case n of OnDisconnect \<Rightarrow> onDisconnectCb c
                  | OnReconnect \<Rightarrow> onReconnectCb c
                  | OnReconnectFailed \<Rightarrow> onReconnectFailedCb c)
      then emit (Fired n) c else c)"

text \<open>
  \<^verbatim>\<open>rejectAllPending\<close>: every entry, in insertion order, has its timer cleared and its
  promise rejected; then the map is cleared.
\<close>

definition rejectAllPending :: "error \<Rightarrow> CDPClient \<Rightarrow> CDPClient" where
  "rejectAllPending reason c =
     c\<lparr>timers := timers c - set (callbacks c),
       effects := effects c @ map (\<lambda>i. Settled i (Inl reason)) (callbacks c),
       callbacks := []\<rparr>"

text \<open>
  \<^verbatim>\<open>scheduleReconnect\<close>. The delay is
  \<^verbatim>\<open>Math.min(initialRetryDelay * Math.pow(2, retryCount), maxRetryDelay)\<close>, computed
  before the counter is incremented.
\<close>

definition scheduleReconnect :: "CDPClient \<Rightarrow> CDPClient" where
  "scheduleReconnect c =
     (if intentionalDisconnect c \<or> isDisposed c then c
      else if maxRetries (options c) \<le> int (retryCount c)
      then fire OnReconnectFailed (log (LogGivingUp (maxRetries (options c))) c)
      else
        let delay = min (initialRetryDelay (options c) * 2 ^ retryCount c)
                        (maxRetryDelay (options c));
            c1 = c\<lparr>retryCount := retryCount c + 1\<rparr>;
            c2 = log (LogReconnectingIn delay (retryCount c1) (maxRetries (options c1))) c1
        in c2\<lparr>retryTimer := Some delay\<rparr>)"

text \<open>
  Settling the promise of a \<^verbatim>\<open>doConnect()\<close>. For \<^verbatim>\<open>connect()\<close>'s caller that is
  the outcome of \<^verbatim>\<open>connect\<close>; for the retry timer's callback it runs the continuation
  after its \<^verbatim>\<open>await\<close>: on success the reconnect observer, on failure
  \<^verbatim>\<open>scheduleReconnect\<close>.
\<close>

definition settleConnect :: "caller \<Rightarrow> error option \<Rightarrow> CDPClient \<Rightarrow> CDPClient" where
  "settleConnect who r c =
     (case who of
        Initial \<Rightarrow> emit (ConnectSettled r) c
      | Retry \<Rightarrow>
          (case r of
             None \<Rightarrow> fire OnReconnect (log LogReconnected c)
           | Some _ \<Rightarrow> scheduleReconnect c))"

text \<open>
  The synchronous part of \<^verbatim>\<open>doConnect\<close>: reject when disposed, otherwise issue the
  discovery request (\<open>httpThrows\<close>: \<^verbatim>\<open>http.get\<close> itself throws).
\<close>

definition doConnect :: "caller \<Rightarrow> bool \<Rightarrow> CDPClient \<Rightarrow> CDPClient" where
  "doConnect who httpThrows c =
     (if isDisposed c then settleConnect who (Some ClientDisposed) c
      else if httpThrows then settleConnect who (Some HttpCreateFailed) c
      else emit (HttpGet (port c)) c)"

text \<open>
  \<^verbatim>\<open>connect\<close>. \<open>Inl\<close> is the exception thrown before any state changes.
\<close>

definition connect :: "int \<Rightarrow> bool \<Rightarrow> CDPClient \<Rightarrow> error + CDPClient" where
  "connect p httpThrows c =
     (if isDisposed c then Inl CannotConnectDisposed
      else if p \<le> 0 \<or> 65535 < p then Inl (InvalidPort p)
      else Inr (doConnect Initial httpThrows
                  (c\<lparr>port := p, intentionalDisconnect := False, retryCount := 0\<rparr>)))"

text \<open>
  The outcomes of the discovery request of one \<^verbatim>\<open>doConnect\<close>. Every failure (request
  error, timeout, response error, unparsable or empty target list, no matching target, the
  \<^verbatim>\<open>WebSocket\<close> constructor throwing) rejects the promise and changes nothing else.
  On success the socket is created: \<^verbatim>\<open>this.ws = new WebSocket(url)\<close>, not yet open.
\<close>

definition discoveryFailed :: "caller \<Rightarrow> error \<Rightarrow> CDPClient \<Rightarrow> CDPClient" where
  "discoveryFailed who e c = settleConnect who (Some e) c"

definition socketCreated :: "CDPClient \<Rightarrow> CDPClient" where
  "socketCreated c = c\<lparr>ws := Some CONNECTING\<rparr>"

text \<open>The socket's \<^verbatim>\<open>open\<close> handler; the socket it belongs to is now \<^verbatim>\<open>OPEN\<close>.\<close>

definition openHandler :: "caller \<Rightarrow> CDPClient \<Rightarrow> CDPClient" where
  "openHandler who c =
     (let c1 = c\<lparr>ws := map_option (\<lambda>_. OPEN) (ws c)\<rparr>;
          c2 = log LogConnected c1;
          c3 = c2\<lparr>retryCount := 0\<rparr>
      in settleConnect who None c3)"

text \<open>The \<^verbatim>\<open>error\<close> handler only logs.\<close>

definition errorHandler :: "CDPClient \<Rightarrow> CDPClient" where
  "errorHandler c = log LogSocketError c"

text \<open>The \<^verbatim>\<open>close\<close> handler.\<close>

definition closeHandler :: "CDPClient \<Rightarrow> CDPClient" where
  "closeHandler c =
     (let c1 = log LogSocketClosed c;
          c2 = c1\<lparr>ws := None\<rparr>;
          c3 = rejectAllPending ConnectionClosed c2;
          c4 = fire OnDisconnect c3
      in if \<not> intentionalDisconnect c4 \<and> \<not> isDisposed c4 then scheduleReconnect c4 else c4)"

text \<open>
  The retry timer's callback. It can only run while the timer is armed.
\<close>

definition retryTimerFired :: "bool \<Rightarrow> CDPClient \<Rightarrow> CDPClient" where
  "retryTimerFired httpThrows c =
     (case retryTimer c of
        None \<Rightarrow> c
      | Some _ \<Rightarrow>
          (let c1 = c\<lparr>retryTimer := None\<rparr>
           in if intentionalDisconnect c1 \<or> isDisposed c1 then c1
              else doConnect Retry httpThrows c1))"

text \<open>
  Incoming frames. \<open>NullData\<close> is a falsy frame, \<open>OtherData\<close> one of no recognised
  format; a string, \<^verbatim>\<open>Buffer\<close>, \<^verbatim>\<open>ArrayBuffer\<close> or array of buffers is decoded to one
  string and given to \<^verbatim>\<open>JSON.parse\<close>, whose outcome \<open>TextData\<close> carries: \<open>None\<close> when it
  throws, otherwise the fields the handler reads: \<^verbatim>\<open>data.id\<close> when it is a number (a
  natural number, as every key of the map is), whether \<^verbatim>\<open>data.error\<close> is truthy (its
  JSON text), and of \<^verbatim>\<open>data.result\<close>, the value the promise is resolved with, the
  one part its only consumer reads: the string at \<^verbatim>\<open>.result.value\<close>, if there is one.
\<close>

record message =
  msg_id :: "nat option"
  msg_error :: "string option"
  msg_result :: "string option"

datatype rawData = NullData | OtherData | TextData "message option"

definition handleMessage :: "rawData \<Rightarrow> CDPClient \<Rightarrow> CDPClient" where
  "handleMessage raw c =
     (case raw of
        NullData \<Rightarrow> log LogNullMessage c
      | OtherData \<Rightarrow> log LogUnrecognizedMessage c
      | TextData None \<Rightarrow> log LogParseFailed c
      | TextData (Some data) \<Rightarrow>
          (case msg_id data of
             None \<Rightarrow> c
           | Some i \<Rightarrow>
               if i \<in> set (callbacks c)
               then
                 (let c1 = c\<lparr>timers := timers c - {i}\<rparr>;
                      c2 = c1\<lparr>callbacks := removeAll i (callbacks c1)\<rparr>
                  in case msg_error data of
                       Some e \<Rightarrow> emit (Settled i (Inl (CdpError e))) c2
                     | None \<Rightarrow> emit (Settled i (Inr (msg_result data))) c2)
               else c))"

text \<open>
  \<^verbatim>\<open>callbacks.set(id, entry)\<close>: a new key goes to the end of the insertion order, an
  existing key keeps its place.
\<close>

definition mapSet :: "nat \<Rightarrow> nat list \<Rightarrow> nat list" where
  "mapSet i ks = (if i \<in> set ks then ks else ks @ [i])"

text \<open>
  \<^verbatim>\<open>send\<close>. \<open>Inl\<close> is an exception thrown before the promise is created; \<open>Inr\<close> returns the
  id of the call whose promise the caller now holds. \<open>sendThrows\<close>: \<^verbatim>\<open>ws.send\<close> throws.
\<close>

definition send :: "string \<Rightarrow> params \<Rightarrow> bool \<Rightarrow> CDPClient \<Rightarrow> error + nat \<times> CDPClient" where
  "send method ps sendThrows c =
     (if isDisposed c then Inl CannotSendDisposed
      else if method = [] then Inl EmptyMethod
      else if ws c \<noteq> Some OPEN then Inl NotConnected
      else
        let i = messageId c;
            c1 = c\<lparr>messageId := messageId c + 1\<rparr>;
            c2 = c1\<lparr>timers := insert i (timers c1)\<rparr>;
            c3 = emit (Registered i) (c2\<lparr>callbacks := mapSet i (callbacks c2)\<rparr>)
        in if sendThrows
           then
             (let c4 = (if i \<in> set (callbacks c3)
                        then c3\<lparr>timers := timers c3 - {i},
                                callbacks := removeAll i (callbacks c3)\<rparr>
                        else c3)
              in Inr (i, emit (Settled i (Inl SendFailed)) c4))
           else Inr (i, emit (Frame i method ps) c3))"

text \<open>The timeout timer of call \<open>i\<close> fires; it can only do so while armed.\<close>

definition callTimerFired :: "nat \<Rightarrow> CDPClient \<Rightarrow> CDPClient" where
  "callTimerFired i c =
     (if i \<notin> timers c then c
      else
        let c1 = c\<lparr>timers := timers c - {i}\<rparr>
        in if i \<in> set (callbacks c1)
           then emit (Settled i (Inl (CallTimedOut (callTimeout (options c1)))))
                  (c1\<lparr>callbacks := removeAll i (callbacks c1)\<rparr>)
           else c1)"

definition disconnect :: "CDPClient \<Rightarrow> CDPClient" where
  "disconnect c =
     (if isDisposed c then c
      else
        let c1 = c\<lparr>intentionalDisconnect := True\<rparr>;
            c2 = (case retryTimer c1 of None \<Rightarrow> c1 | Some _ \<Rightarrow> c1\<lparr>retryTimer := None\<rparr>);
            c3 = rejectAllPending DisconnectedIntentionally c2
        in case ws c3 of
             None \<Rightarrow> c3
           | Some _ \<Rightarrow> (emit SocketClose c3)\<lparr>ws := None\<rparr>)"

definition dispose :: "CDPClient \<Rightarrow> CDPClient" where
  "dispose c =
     (if isDisposed c then c
      else
        let c1 = c\<lparr>isDisposed := True\<rparr>;
            c2 = disconnect c1
        in c2\<lparr>onDisconnectCb := False, onReconnectCb := False,
              onReconnectFailedCb := False, onLogCb := False\<rparr>)"

subsection \<open>Runs of the client\<close>

text \<open>
  One event is one method call from outside or one handler invoked by the host's event
  loop; handlers run to completion, so a run of the client is a list of events. An
  exception thrown by \<^verbatim>\<open>connect\<close> or \<^verbatim>\<open>send\<close> leaves the client as it was.
\<close>

datatype event =
    Connect int bool
  | DiscoveryFailed caller error
  | SocketCreated
  | WsOpen caller
  | WsMessage rawData
  | WsError
  | WsClose
  | RetryTimerFired bool
  | Send string params bool
  | CallTimerFired nat
  | Disconnect
  | Dispose
  | Observe callbackName
  | ObserveLog

fun step :: "event \<Rightarrow> CDPClient \<Rightarrow> CDPClient" where
  "step (Connect p h) c = (case connect p h c of Inl _ \<Rightarrow> c | Inr c' \<Rightarrow> c')"
| "step (DiscoveryFailed who e) c = discoveryFailed who e c"
| "step SocketCreated c = socketCreated c"
| "step (WsOpen who) c = openHandler who c"
| "step (WsMessage raw) c = handleMessage raw c"
| "step WsError c = errorHandler c"
| "step WsClose c = closeHandler c"
| "step (RetryTimerFired h) c = retryTimerFired h c"
| "step (Send m ps t) c = (case send m ps t c of Inl _ \<Rightarrow> c | Inr (_, c') \<Rightarrow> c')"
| "step (CallTimerFired i) c = callTimerFired i c"
| "step Disconnect c = disconnect c"
| "step Dispose c = dispose c"
| "step (Observe OnDisconnect) c = onDisconnect c"
| "step (Observe OnReconnect) c = onReconnect c"
| "step (Observe OnReconnectFailed) c = onReconnectFailed c"
| "step ObserveLog c = onLog c"

fun run :: "event list \<Rightarrow> CDPClient \<Rightarrow> CDPClient" where
  "run [] c = c"
| "run (e # es) c = run es (step e c)"

text \<open>A client with the default options whose first \<^verbatim>\<open>connect(9222)\<close> has succeeded.\<close>

definition established :: CDPClient where
  "established =
     run [Observe OnDisconnect, Observe OnReconnect, Observe OnReconnectFailed,
          Connect 9222 False, SocketCreated, WsOpen Initial]
       (newClient DEFAULT_OPTIONS)"

text \<open>
  One failed reconnection attempt: the retry timer fires and the attempt fails, either at
  discovery (the promise rejects) or after the socket was created (the socket closes
  without having opened).
\<close>

datatype failure = AtDiscovery error | AtSocket

fun failedAttempt :: "failure \<Rightarrow> event list" where
  "failedAttempt (AtDiscovery e) = [RetryTimerFired False, DiscoveryFailed Retry e]"
| "failedAttempt AtSocket = [RetryTimerFired False, SocketCreated, WsError, WsClose]"

section \<open>The action script (built in \<^verbatim>\<open>AutoAcceptor.poll\<close>, src/autoAcceptor.ts)\<close>

text \<open>
  The script is evaluated in the page. An element is what the script reads of it: tag,
  \<^verbatim>\<open>role\<close> attribute, class list, \<open>label\<close>, the value of
  \<^verbatim>\<open>(b.textContent || b.innerText || '').trim().toLowerCase()\<close>, the width and height
  of its bounding rectangle (\<open>None\<close> for no rectangle), and its shadow root. A root (the
  body or a shadow root) is the list \<^verbatim>\<open>root.querySelectorAll('*')\<close> returns, in
  document order. Exceptions raised by the page's own objects are not modelled.
\<close>

datatype element =
  Element (tagName: string) (role: "string option") (classList: "string list")
    (label: string) (rect: "(int \<times> int) option") (shadowRoot: "element list option")

record page =
  body :: "element list"
  innerText :: string

fun startsWith :: "string \<Rightarrow> string \<Rightarrow> bool" where
  "startsWith s [] = True"
| "startsWith [] (p # ps) = False"
| "startsWith (c # cs) (p # ps) = (c = p \<and> startsWith cs ps)"

text \<open>\<^verbatim>\<open>s.includes(sub)\<close>: \<open>sub\<close> occurs in \<open>s\<close> as a contiguous substring.\<close>

fun includes_str :: "string \<Rightarrow> string \<Rightarrow> bool" where
  "includes_str [] sub = (sub = [])"
| "includes_str (c # cs) sub = (startsWith (c # cs) sub \<or> includes_str cs sub)"

definition isButton :: "element \<Rightarrow> bool" where
  "isButton el =
     (tagName el = ''BUTTON'' \<or> role el = Some ''button''
      \<or> ''cursor-pointer'' \<in> set (classList el))"

fun findAllButtons :: "element list \<Rightarrow> element list" where
  "findAllButtons [] = []"
| "findAllButtons (Element t ro cl l rc None # items) =
     (if isButton (Element t ro cl l rc None) then [Element t ro cl l rc None] else [])
     @ findAllButtons items"
| "findAllButtons (Element t ro cl l rc (Some r) # items) =
     (if isButton (Element t ro cl l rc (Some r)) then [Element t ro cl l rc (Some r)] else [])
     @ findAllButtons r
     @ findAllButtons items"

definition targetTexts :: "string list" where
  "targetTexts = [''accept'', ''run'', ''retry'', ''apply'']"

definition visible :: "element \<Rightarrow> bool" where
  "visible b = (case rect b of None \<Rightarrow> False | Some (w, h) \<Rightarrow> 0 < w \<and> 0 < h)"

text \<open>The inner loop over \<^verbatim>\<open>blockedCmds\<close>: the first entry the page text includes.\<close>

fun firstBlocked :: "string \<Rightarrow> string list \<Rightarrow> string option" where
  "firstBlocked pageText [] = None"
| "firstBlocked pageText (blocked # rest) =
     (if includes_str pageText blocked then Some blocked else firstBlocked pageText rest)"

text \<open>
  The loop over the buttons. The result is the string the script returns and the element
  whose \<^verbatim>\<open>click()\<close> was called, if any.
\<close>

fun scanButtons :: "string list \<Rightarrow> string \<Rightarrow> element list \<Rightarrow> string \<times> element option" where
  "scanButtons blockedCmds pageText [] = (''none'', None)"
| "scanButtons blockedCmds pageText (b # bs) =
     (if label b \<in> set targetTexts \<and> visible b
      then
        (if label b = ''run''
         then (case firstBlocked pageText blockedCmds of
                 Some blocked \<Rightarrow> (''blocked: '' @ blocked, None)
               | None \<Rightarrow> (''clicked_'' @ label b, Some b))
         else (''clicked_'' @ label b, Some b))
      else scanButtons blockedCmds pageText bs)"

text \<open>The whole script; \<open>None\<close> is a document without a body.\<close>

definition actionScript :: "string list \<Rightarrow> page option \<Rightarrow> string \<times> element option" where
  "actionScript blockedCmds doc =
     (case doc of
        None \<Rightarrow> (''none'', None)
      | Some p \<Rightarrow> scanButtons blockedCmds (innerText p) (findAllButtons (body p)))"

section \<open>The supervisor (\<^verbatim>\<open>AutoAcceptor\<close>, src/autoAcceptor.ts)\<close>

text \<open>
  What the supervisor does to the host: lines appended to the output channel, notifications,
  and status bar updates.
\<close>

datatype statusBarState = StatusOn | StatusOff | StatusReconnecting

datatype line =
    CannotToggle
  | CannotStart
  | ConnectingToCDP
  | Started
  | FailedToConnect error
  | Stopping
  | DisconnectedPausing
  | ReconnectedResuming
  | AttemptsExhausted
  | AcceptedAction string
  | BlockedCommand string
  | ScriptError string
  | PollError error
  | FromClient logLine

datatype hostEffect =
    AppendLine line
  | StatusBar statusBarState
  | InfoConnected
  | InfoReconnected
  | InfoStopped
  | WarnFailedToConnect
  | WarnBlocked string
  | ErrorCouldNotReconnect
  | StatusBarDisposed
  | OutputChannelDisposed

text \<open>
  The fields of the class, the host effects so far, and the suspended \<^verbatim>\<open>async\<close>
  calls: \<open>polls\<close> holds, for every \<^verbatim>\<open>poll()\<close> waiting at its \<^verbatim>\<open>await\<close>, the id of the
  call it waits for; \<open>starts\<close> counts the \<^verbatim>\<open>start()\<close> calls waiting for \<^verbatim>\<open>connect\<close>.
  The length of \<open>polls\<close> is the number of ticks inside the guarded region.
\<close>

record AutoAcceptor =
  cdp :: CDPClient
  isRunning :: bool
  disposed :: bool
  pollInterval :: bool
  isPollInProgress :: bool
  host :: "hostEffect list"
  polls :: "nat list"
  starts :: nat

definition tell :: "hostEffect \<Rightarrow> AutoAcceptor \<Rightarrow> AutoAcceptor" where
  "tell e a = a\<lparr>host := host a @ [e]\<rparr>"

text \<open>\<^verbatim>\<open>AutoAcceptor.log\<close> and \<^verbatim>\<open>updateStatusBar\<close> do nothing once disposed.\<close>

definition hlog :: "line \<Rightarrow> AutoAcceptor \<Rightarrow> AutoAcceptor" where
  "hlog m a = (if disposed a then a else tell (AppendLine m) a)"

definition updateStatusBar :: "statusBarState \<Rightarrow> AutoAcceptor \<Rightarrow> AutoAcceptor" where
  "updateStatusBar st a = (if disposed a then a else tell (StatusBar st) a)"

definition resumePolling :: "AutoAcceptor \<Rightarrow> AutoAcceptor" where
  "resumePolling a = (if disposed a \<or> pollInterval a then a else a\<lparr>pollInterval := True\<rparr>)"

definition pausePolling :: "AutoAcceptor \<Rightarrow> AutoAcceptor" where
  "pausePolling a = (if pollInterval a then a\<lparr>pollInterval := False\<rparr> else a)"

text \<open>The observers the constructor registers with the client.\<close>

fun callback :: "effect \<Rightarrow> AutoAcceptor \<Rightarrow> AutoAcceptor" where
  "callback (Log m) a = hlog (FromClient m) a"
| "callback (Fired OnDisconnect) a =
     (if disposed a then a
      else updateStatusBar StatusReconnecting (pausePolling (hlog DisconnectedPausing a)))"
| "callback (Fired OnReconnect) a =
     (if disposed a then a
      else updateStatusBar StatusOn
             (resumePolling (tell InfoReconnected (hlog ReconnectedResuming a))))"
| "callback (Fired OnReconnectFailed) a =
     (if disposed a then a
      else updateStatusBar StatusOff
             ((tell ErrorCouldNotReconnect (hlog AttemptsExhausted a))\<lparr>isRunning := False\<rparr>))"
| "callback _ a = a"

text \<open>
  The client's observers run synchronously inside the client's methods and touch nothing
  the client reads, so the supervisor's state after a client method is: the client's new
  state, then the observers it invoked, in order.
\<close>

definition sync :: "CDPClient \<Rightarrow> AutoAcceptor \<Rightarrow> AutoAcceptor" where
  "sync c' a = fold callback (drop (length (effects (cdp a))) (effects c')) (a\<lparr>cdp := c'\<rparr>)"

definition newAcceptor :: AutoAcceptor where
  "newAcceptor =
     updateStatusBar StatusOff
       \<lparr>cdp = onReconnectFailed (onReconnect (onDisconnect (onLog (newClient DEFAULT_OPTIONS)))),
        isRunning = False, disposed = False, pollInterval = False, isPollInProgress = False,
        host = [], polls = [], starts = 0\<rparr>"

text \<open>
  \<^verbatim>\<open>poll\<close> after its \<^verbatim>\<open>await\<close>: the \<^verbatim>\<open>try\<close> body on the resolved value
  (\<^verbatim>\<open>result?.result?.value ?? ''\<close>), the \<^verbatim>\<open>catch\<close> on a rejection, and the \<^verbatim>\<open>finally\<close>.
\<close>

definition pollEnd :: "error + string option \<Rightarrow> AutoAcceptor \<Rightarrow> AutoAcceptor" where
  "pollEnd r a =
     (let a1 =
        (case r of
           Inr v \<Rightarrow>
             (let val = (case v of None \<Rightarrow> [] | Some s \<Rightarrow> s)
              in if val \<noteq> []
                 then
                   (if startsWith val ''clicked_'' then hlog (AcceptedAction val) a
                    else if startsWith val ''blocked: ''
                    then (let cmd = drop (length ''blocked: '') val
                          in tell (WarnBlocked cmd) (hlog (BlockedCommand cmd) a))
                    else if startsWith val ''error: '' then hlog (ScriptError val) a
                    else a)
                 else a)
         | Inl e \<Rightarrow> hlog (PollError e) a)
      in a1\<lparr>isPollInProgress := False\<rparr>)"

text \<open>
  \<^verbatim>\<open>poll\<close> up to its \<^verbatim>\<open>await\<close>. \<open>cfg\<close> is the configured blocked list (\<open>None\<close>: not
  set, or reading the configuration throws). \<open>pollCall\<close> is the \<^verbatim>\<open>send\<close> a tick makes, if
  it gets that far. A \<^verbatim>\<open>send\<close> that throws continues at the \<^verbatim>\<open>catch\<close> at once;
  otherwise the tick waits for the call.
\<close>

definition defaultBlocked :: "string list" where
  "defaultBlocked = [''rm -rf /'', ''format'', ''mkfs'']"

definition pollCall ::
  "string list option \<Rightarrow> bool \<Rightarrow> AutoAcceptor \<Rightarrow> (error + nat \<times> CDPClient) option" where
  "pollCall cfg sendThrows a =
     (if isPollInProgress a \<or> \<not> isRunning a \<or> disposed a then None
      else if \<not> isConnected (cdp a) then None
      else
        let blockedCommands = (case cfg of Some b \<Rightarrow> b | None \<Rightarrow> defaultBlocked)
        in Some (send ''Runtime.evaluate'' (Evaluate blockedCommands) sendThrows (cdp a)))"

definition pollBegin :: "string list option \<Rightarrow> bool \<Rightarrow> AutoAcceptor \<Rightarrow> AutoAcceptor" where
  "pollBegin cfg sendThrows a =
     (case pollCall cfg sendThrows a of
        None \<Rightarrow> a
      | Some r \<Rightarrow>
          (let a1 = a\<lparr>isPollInProgress := True\<rparr>
           in case r of
                Inl e \<Rightarrow> pollEnd (Inl e) a1
              | Inr (i, c') \<Rightarrow> (sync c' a1)\<lparr>polls := polls a1 @ [i]\<rparr>))"

text \<open>\<^verbatim>\<open>start\<close> after and up to its \<^verbatim>\<open>await this.cdp.connect(9222)\<close>.\<close>

definition startEnd :: "error option \<Rightarrow> AutoAcceptor \<Rightarrow> AutoAcceptor" where
  "startEnd r a =
     (case r of
        None \<Rightarrow>
          hlog Started (tell InfoConnected
            (resumePolling (updateStatusBar StatusOn (a\<lparr>isRunning := True\<rparr>))))
      | Some e \<Rightarrow>
          updateStatusBar StatusOff
            ((tell WarnFailedToConnect (hlog (FailedToConnect e) a))\<lparr>isRunning := False\<rparr>))"

definition startBegin :: "bool \<Rightarrow> AutoAcceptor \<Rightarrow> AutoAcceptor" where
  "startBegin httpThrows a =
     (if disposed a then hlog CannotStart a
      else if isRunning a then a
      else
        let a1 = hlog ConnectingToCDP a
        in case connect 9222 httpThrows (cdp a1) of
             Inl e \<Rightarrow> startEnd (Some e) a1
           | Inr c' \<Rightarrow> (sync c' a1)\<lparr>starts := starts a1 + 1\<rparr>)"

definition stop :: "AutoAcceptor \<Rightarrow> AutoAcceptor" where
  "stop a =
     (if disposed a then a
      else
        let a1 = pausePolling (hlog Stopping a);
            a2 = sync (disconnect (cdp a1)) a1;
            a3 = a2\<lparr>isRunning := False\<rparr>
        in tell InfoStopped (updateStatusBar StatusOff a3))"

definition toggle :: "bool \<Rightarrow> AutoAcceptor \<Rightarrow> AutoAcceptor" where
  "toggle httpThrows a =
     (if disposed a then hlog CannotToggle a
      else if isRunning a then stop a
      else startBegin httpThrows a)"

definition disposeAcceptor :: "AutoAcceptor \<Rightarrow> AutoAcceptor" where
  "disposeAcceptor a =
     (if disposed a then a
      else
        let a1 = pausePolling (a\<lparr>disposed := True\<rparr>);
            a2 = sync (disconnect (cdp a1)) a1
        in tell OutputChannelDisposed (tell StatusBarDisposed a2))"

text \<open>
  A suspended \<^verbatim>\<open>async\<close> call resumes when the promise it waits for settles. Promise
  reactions run after the synchronous code that settled the promise has finished.
\<close>

fun continuation :: "effect \<Rightarrow> AutoAcceptor \<Rightarrow> AutoAcceptor" where
  "continuation (Settled i r) a =
     (if i \<in> set (polls a) then pollEnd r (a\<lparr>polls := removeAll i (polls a)\<rparr>) else a)"
| "continuation (ConnectSettled r) a =
     (if 0 < starts a then startEnd r (a\<lparr>starts := starts a - 1\<rparr>) else a)"
| "continuation _ a = a"

definition task :: "(AutoAcceptor \<Rightarrow> AutoAcceptor) \<Rightarrow> AutoAcceptor \<Rightarrow> AutoAcceptor" where
  "task f a =
     (let a' = f a
      in fold continuation (drop (length (effects (cdp a))) (effects (cdp a'))) a')"

text \<open>
  The events of the supervisor: the poll timer fires, a command of the host, or an event
  the host's event loop delivers to the client (the client is private to the supervisor, so
  its methods are called by the supervisor only).
\<close>

fun external :: "event \<Rightarrow> bool" where
  "external (DiscoveryFailed who e) = True"
| "external SocketCreated = True"
| "external (WsOpen who) = True"
| "external (WsMessage raw) = True"
| "external WsError = True"
| "external WsClose = True"
| "external (RetryTimerFired h) = True"
| "external (CallTimerFired i) = True"
| "external _ = False"

datatype command =
    Tick "string list option" bool
  | Start bool
  | Stop
  | Toggle bool
  | DisposeAcceptor
  | Client event

fun exec :: "command \<Rightarrow> AutoAcceptor \<Rightarrow> AutoAcceptor" where
  "exec (Tick cfg t) a = (if pollInterval a then task (pollBegin cfg t) a else a)"
| "exec (Start h) a = task (startBegin h) a"
| "exec Stop a = task stop a"
| "exec (Toggle h) a = task (toggle h) a"
| "exec DisposeAcceptor a = task disposeAcceptor a"
| "exec (Client e) a = (if external e then task (\<lambda>a. sync (step e (cdp a)) a) a else a)"

fun execAll :: "command list \<Rightarrow> AutoAcceptor \<Rightarrow> AutoAcceptor" where
  "execAll [] a = a"
| "execAll (x # xs) a = execAll xs (exec x a)"

section \<open>Observations on runs\<close>

text \<open>The ids registered in the pending-call table, and the ids whose promise was settled,
  in the order in which it happened.\<close>

fun registered :: "effect list \<Rightarrow> nat list" where
  "registered [] = []"
| "registered (Registered i # es) = i # registered es"
| "registered (e # es) = registered es"

fun settled :: "effect list \<Rightarrow> nat list" where
  "settled [] = []"
| "settled (Settled i r # es) = i # settled es"
| "settled (e # es) = settled es"

text \<open>How often a lifecycle observer was invoked.\<close>

definition fired :: "callbackName \<Rightarrow> CDPClient \<Rightarrow> nat" where
  "fired n c = length (filter (\<lambda>e. e = Fired n) (effects c))"

text \<open>
  The class has no state variable; the states of the specification are read off its
  fields. Exhausted: the retry budget is used up, nothing is scheduled and no socket is
  held, and the client was neither disconnected on purpose nor disposed.
\<close>

definition exhausted :: "CDPClient \<Rightarrow> bool" where
  "exhausted c =
     (maxRetries (options c) \<le> int (retryCount c) \<and> retryTimer c = None \<and> ws c = None
      \<and> \<not> intentionalDisconnect c \<and> \<not> isDisposed c)"

text \<open>The bookkeeping of pending calls that every run of the client maintains.\<close>

definition pendingInv :: "CDPClient \<Rightarrow> bool" where
  "pendingInv c =
     (distinct (registered (effects c)) \<and> distinct (settled (effects c))
      \<and> distinct (callbacks c)
      \<and> (\<forall>i. i \<in> set (registered (effects c)) \<longrightarrow> i < messageId c)
      \<and> set (callbacks c) \<union> set (settled (effects c)) = set (registered (effects c))
      \<and> set (callbacks c) \<inter> set (settled (effects c)) = {}
      \<and> timers c = set (callbacks c))"

text \<open>
  Reconnecting: the retry timer is armed for attempt number \<open>k\<close> (counted from 1) out of
  \<open>n\<close>, no socket is held, and an observer for exhaustion is registered.
\<close>

definition reconnecting :: "nat \<Rightarrow> nat \<Rightarrow> CDPClient \<Rightarrow> bool" where
  "reconnecting n k c =
     (maxRetries (options c) = int n \<and> retryCount c = k \<and> retryTimer c \<noteq> None \<and> ws c = None
      \<and> \<not> intentionalDisconnect c \<and> \<not> isDisposed c \<and> onReconnectFailedCb c)"

text \<open>The events that are calls of \<^verbatim>\<open>send\<close>.\<close>

fun sends :: "event \<Rightarrow> bool" where
  "sends (Send m ps t) = True"
| "sends e = False"

text \<open>A button the script acts on: one of the target labels, with a visible rectangle.\<close>

definition candidate :: "element \<Rightarrow> bool" where
  "candidate b = (label b \<in> set targetTexts \<and> visible b)"

text \<open>The guard of the supervisor is set exactly while one tick waits for its call.\<close>

definition guardInv :: "AutoAcceptor \<Rightarrow> bool" where
  "guardInv a = (length (polls a) \<le> 1 \<and> (isPollInProgress a = (polls a \<noteq> [])))"

text \<open>
  A tick that waits, waits for a call that is still pending in the client (whose timeout
  timer is therefore armed), so it will be resumed.
\<close>

definition waitingInv :: "AutoAcceptor \<Rightarrow> bool" where
  "waitingInv a =
     (guardInv a \<and> pendingInv (cdp a) \<and> set (polls a) \<subseteq> set (callbacks (cdp a)))"

text \<open>
  The synchronous part of an event took the supervisor from \<open>a\<close> to \<open>a'\<close>: the client's
  effects grew by \<open>new\<close>, and a waiting tick waits for a call that is pending or was settled
  in \<open>new\<close> (its continuation has not run yet).
\<close>

definition advances :: "AutoAcceptor \<Rightarrow> AutoAcceptor \<Rightarrow> bool" where
  "advances a a' =
     (guardInv a' \<and> pendingInv (cdp a')
      \<and> (\<exists>new. effects (cdp a') = effects (cdp a) @ new
                 \<and> set (polls a') \<subseteq> set (callbacks (cdp a')) \<union> set (settled new)))"

section \<open>Pending calls: the bookkeeping is an invariant\<close>

lemma registered_append: "registered (xs @ ys) = registered xs @ registered ys"
  by (induction xs rule: registered.induct) simp_all

lemma settled_append: "settled (xs @ ys) = settled xs @ settled ys"
  by (induction xs rule: settled.induct) simp_all

lemma registered_rejects: "registered (map (\<lambda>i. Settled i r) ks) = []"
  by (induction ks) simp_all

lemma settled_rejects: "settled (map (\<lambda>i. Settled i r) ks) = ks"
  by (induction ks) simp_all

text \<open>The part of the state the bookkeeping of pending calls depends on.\<close>

lemma pendingInv_cong:
  "messageId c' = messageId c \<Longrightarrow> callbacks c' = callbacks c \<Longrightarrow> timers c' = timers c
   \<Longrightarrow> registered (effects c') = registered (effects c)
   \<Longrightarrow> settled (effects c') = settled (effects c)
   \<Longrightarrow> pendingInv c' = pendingInv c"
  by (simp add: pendingInv_def)

lemma log_frame:
  "messageId (log m c) = messageId c" "callbacks (log m c) = callbacks c"
  "timers (log m c) = timers c" "registered (effects (log m c)) = registered (effects c)"
  "settled (effects (log m c)) = settled (effects c)"
  by (simp_all add: log_def emit_def registered_append settled_append)

lemma fire_frame:
  "messageId (fire n c) = messageId c" "callbacks (fire n c) = callbacks c"
  "timers (fire n c) = timers c" "registered (effects (fire n c)) = registered (effects c)"
  "settled (effects (fire n c)) = settled (effects c)"
  by (simp_all add: fire_def emit_def registered_append settled_append)

lemma scheduleReconnect_frame:
  "messageId (scheduleReconnect c) = messageId c" "callbacks (scheduleReconnect c) = callbacks c"
  "timers (scheduleReconnect c) = timers c"
  "registered (effects (scheduleReconnect c)) = registered (effects c)"
  "settled (effects (scheduleReconnect c)) = settled (effects c)"
  by (simp_all add: scheduleReconnect_def Let_def log_frame fire_frame)

lemma settleConnect_frame:
  "messageId (settleConnect w r c) = messageId c" "callbacks (settleConnect w r c) = callbacks c"
  "timers (settleConnect w r c) = timers c"
  "registered (effects (settleConnect w r c)) = registered (effects c)"
  "settled (effects (settleConnect w r c)) = settled (effects c)"
  by (simp_all add: settleConnect_def emit_def registered_append settled_append
        log_frame fire_frame scheduleReconnect_frame split: caller.splits option.splits)

lemma doConnect_frame:
  "messageId (doConnect w h c) = messageId c" "callbacks (doConnect w h c) = callbacks c"
  "timers (doConnect w h c) = timers c"
  "registered (effects (doConnect w h c)) = registered (effects c)"
  "settled (effects (doConnect w h c)) = settled (effects c)"
  by (simp_all add: doConnect_def emit_def registered_append settled_append settleConnect_frame)

lemma pendingInv_rejectAllPending: "pendingInv c \<Longrightarrow> pendingInv (rejectAllPending r c)"
  by (auto simp add: pendingInv_def rejectAllPending_def registered_append settled_append
        registered_rejects settled_rejects)

lemma pendingInv_handleMessage: "pendingInv c \<Longrightarrow> pendingInv (handleMessage raw c)"
  by (auto simp add: pendingInv_def handleMessage_def log_frame emit_def Let_def
        registered_append settled_append distinct_removeAll
      split: rawData.splits option.splits)

lemma pendingInv_callTimerFired: "pendingInv c \<Longrightarrow> pendingInv (callTimerFired i c)"
  by (auto simp add: pendingInv_def callTimerFired_def emit_def Let_def
        registered_append settled_append distinct_removeAll)

lemma pendingInv_send:
  assumes inv: "pendingInv c" and snd: "send m ps t c = Inr (i, c')"
  shows "pendingInv c'"
proof -
  have fresh: "messageId c \<notin> set (registered (effects c))"
    using inv by (auto simp add: pendingInv_def)
  have un: "set (callbacks c) \<union> set (settled (effects c)) = set (registered (effects c))"
    using inv by (simp add: pendingInv_def)
  have f1: "messageId c \<notin> set (callbacks c)" and f2: "messageId c \<notin> set (settled (effects c))"
    using fresh un by auto
  have lt: "\<And>j. j \<in> set (registered (effects c)) \<Longrightarrow> j < Suc (messageId c)"
    using inv by (auto simp add: pendingInv_def less_Suc_eq)
  have open_ok: "\<not> isDisposed c" "m \<noteq> []" "ws c = Some OPEN"
    using snd by (auto simp add: send_def split: if_splits)
  show ?thesis
  proof (cases t)
    case True
    then have c': "c' = c\<lparr>messageId := Suc (messageId c), timers := timers c - {messageId c},
        callbacks := callbacks c,
        effects := effects c @ [Registered (messageId c), Settled (messageId c) (Inl SendFailed)]\<rparr>"
      using snd open_ok f1 by (auto simp add: send_def emit_def Let_def mapSet_def)
    show ?thesis
      using inv f1 f2 fresh lt un unfolding c'
      by (auto simp add: pendingInv_def registered_append settled_append)
  next
    case False
    then have c': "c' = c\<lparr>messageId := Suc (messageId c), timers := insert (messageId c) (timers c),
        callbacks := callbacks c @ [messageId c],
        effects := effects c @ [Registered (messageId c), Frame (messageId c) m ps]\<rparr>"
      using snd open_ok f1 by (auto simp add: send_def emit_def Let_def mapSet_def)
    show ?thesis
      using inv f1 f2 fresh lt un unfolding c'
      by (auto simp add: pendingInv_def registered_append settled_append)
  qed
qed

lemma pendingInv_log: "pendingInv (log m c) = pendingInv c"
  by (rule pendingInv_cong) (rule log_frame)+

lemma pendingInv_fire: "pendingInv (fire n c) = pendingInv c"
  by (rule pendingInv_cong) (rule fire_frame)+

lemma pendingInv_scheduleReconnect: "pendingInv (scheduleReconnect c) = pendingInv c"
  by (rule pendingInv_cong) (rule scheduleReconnect_frame)+

lemma pendingInv_settleConnect: "pendingInv (settleConnect w r c) = pendingInv c"
  by (rule pendingInv_cong) (rule settleConnect_frame)+

lemma pendingInv_doConnect: "pendingInv (doConnect w h c) = pendingInv c"
  by (rule pendingInv_cong) (rule doConnect_frame)+

lemma pendingInv_emit_SocketClose: "pendingInv (emit SocketClose c) = pendingInv c"
  by (rule pendingInv_cong) (simp_all add: emit_def registered_append settled_append)

lemma pendingInv_connect: "pendingInv c \<Longrightarrow> connect p h c = Inr c' \<Longrightarrow> pendingInv c'"
  by (auto simp add: connect_def pendingInv_doConnect split: if_splits)
     (simp add: pendingInv_def)

lemma pendingInv_openHandler: "pendingInv c \<Longrightarrow> pendingInv (openHandler w c)"
  by (simp add: openHandler_def Let_def pendingInv_settleConnect)
     (simp add: pendingInv_def log_frame)

lemma pendingInv_closeHandler: "pendingInv c \<Longrightarrow> pendingInv (closeHandler c)"
proof -
  assume inv: "pendingInv c"
  have "pendingInv ((log LogSocketClosed c)\<lparr>ws := None\<rparr>)"
    using inv by (simp add: pendingInv_def log_frame)
  then have "pendingInv (rejectAllPending ConnectionClosed ((log LogSocketClosed c)\<lparr>ws := None\<rparr>))"
    by (rule pendingInv_rejectAllPending)
  then show ?thesis
    by (simp add: closeHandler_def Let_def pendingInv_fire pendingInv_scheduleReconnect)
qed

lemma pendingInv_retryTimerFired: "pendingInv c \<Longrightarrow> pendingInv (retryTimerFired h c)"
  by (auto simp add: retryTimerFired_def Let_def pendingInv_doConnect split: option.splits)
     (simp_all add: pendingInv_def)

lemma pendingInv_disconnect: "pendingInv c \<Longrightarrow> pendingInv (disconnect c)"
proof -
  assume inv: "pendingInv c"
  let ?c2 = "case retryTimer (c\<lparr>intentionalDisconnect := True\<rparr>) of
               None \<Rightarrow> c\<lparr>intentionalDisconnect := True\<rparr>
             | Some _ \<Rightarrow> c\<lparr>intentionalDisconnect := True, retryTimer := None\<rparr>"
  have "pendingInv ?c2"
    using inv by (simp add: pendingInv_def split: option.splits)
  then have r: "pendingInv (rejectAllPending DisconnectedIntentionally ?c2)"
    by (rule pendingInv_rejectAllPending)
  have "pendingInv ((emit SocketClose (rejectAllPending DisconnectedIntentionally ?c2))\<lparr>ws := None\<rparr>)"
    using r pendingInv_emit_SocketClose [of "rejectAllPending DisconnectedIntentionally ?c2"]
    by (simp add: pendingInv_def)
  with r inv show ?thesis
    by (simp add: disconnect_def Let_def split: option.splits)
qed

lemma pendingInv_dispose: "pendingInv c \<Longrightarrow> pendingInv (dispose c)"
  by (simp add: dispose_def disconnect_def Let_def) (simp add: pendingInv_def)

lemma pendingInv_step: "pendingInv c \<Longrightarrow> pendingInv (step e c)"
proof (cases e)
  case (Connect p h)
  assume "pendingInv c"
  with Connect show ?thesis
    by (auto split: sum.splits dest: pendingInv_connect)
next
  case (Send m ps t)
  assume "pendingInv c"
  with Send show ?thesis
    by (auto split: sum.splits dest: pendingInv_send)
next
  case (Observe n)
  assume "pendingInv c"
  with Observe show ?thesis
    by (cases n) (simp_all add: pendingInv_def onDisconnect_def onReconnect_def onReconnectFailed_def)
qed (simp_all add: discoveryFailed_def pendingInv_settleConnect socketCreated_def
      pendingInv_openHandler pendingInv_handleMessage errorHandler_def pendingInv_log
      pendingInv_closeHandler pendingInv_retryTimerFired pendingInv_callTimerFired
      pendingInv_disconnect pendingInv_dispose onLog_def, simp_all add: pendingInv_def)

lemma pendingInv_run: "pendingInv c \<Longrightarrow> pendingInv (run es c)"
  by (induction es arbitrary: c) (simp_all add: pendingInv_step)

lemma pendingInv_newClient: "pendingInv (newClient opts)"
  by (simp add: pendingInv_def newClient_def)

lemma timeout_settles:
  "pendingInv c \<Longrightarrow> i \<in> set (callbacks c) \<Longrightarrow>
     settled (effects (callTimerFired i c)) = settled (effects c) @ [i]
     \<and> i \<notin> set (callbacks (callTimerFired i c))"
  by (simp add: pendingInv_def callTimerFired_def Let_def emit_def settled_append)

section \<open>The reconnect loop, one attempt at a time\<close>

lemma run_append: "run (xs @ ys) c = run ys (run xs c)"
  by (induction xs arbitrary: c) simp_all

lemma fired_emit: "fired n (emit e c) = (if e = Fired n then Suc (fired n c) else fired n c)"
  by (simp add: fired_def emit_def)

lemma log_fields:
  "ws (log m c) = ws c" "retryCount (log m c) = retryCount c" "retryTimer (log m c) = retryTimer c"
  "intentionalDisconnect (log m c) = intentionalDisconnect c" "isDisposed (log m c) = isDisposed c"
  "options (log m c) = options c" "onReconnectFailedCb (log m c) = onReconnectFailedCb c"
  "onDisconnectCb (log m c) = onDisconnectCb c" "onReconnectCb (log m c) = onReconnectCb c"
  "fired n (log m c) = fired n c"
  by (simp_all add: log_def emit_def fired_def)

lemma fire_fields:
  "ws (fire x c) = ws c" "retryCount (fire x c) = retryCount c" "retryTimer (fire x c) = retryTimer c"
  "intentionalDisconnect (fire x c) = intentionalDisconnect c" "isDisposed (fire x c) = isDisposed c"
  "options (fire x c) = options c" "onReconnectFailedCb (fire x c) = onReconnectFailedCb c"
  by (simp_all add: fire_def emit_def)

lemma fired_fire_other: "x \<noteq> n \<Longrightarrow> fired n (fire x c) = fired n c"
  by (auto simp add: fire_def fired_emit)

lemma fired_fire_same: "fired OnReconnectFailed (fire OnReconnectFailed c)
    = (if onReconnectFailedCb c then Suc (fired OnReconnectFailed c) else fired OnReconnectFailed c)"
  by (simp add: fire_def fired_emit)

lemma rejectAllPending_fields:
  "ws (rejectAllPending r c) = ws c" "retryCount (rejectAllPending r c) = retryCount c"
  "retryTimer (rejectAllPending r c) = retryTimer c"
  "intentionalDisconnect (rejectAllPending r c) = intentionalDisconnect c"
  "isDisposed (rejectAllPending r c) = isDisposed c"
  "options (rejectAllPending r c) = options c"
  "onReconnectFailedCb (rejectAllPending r c) = onReconnectFailedCb c"
  by (simp_all add: rejectAllPending_def)

lemma fired_rejectAllPending: "fired n (rejectAllPending r c) = fired n c"
proof -
  have "filter (\<lambda>e. e = Fired n) (map (\<lambda>i. Settled i (Inl r)) ks) = []" for ks
    by (induction ks) simp_all
  then show ?thesis
    by (simp add: fired_def rejectAllPending_def)
qed

lemma fired_update:
  "fired n (c\<lparr>retryTimer := t\<rparr>) = fired n c" "fired n (c\<lparr>retryCount := k\<rparr>) = fired n c"
  "fired n (c\<lparr>ws := w\<rparr>) = fired n c"
  by (simp_all add: fired_def)

text \<open>\<^verbatim>\<open>scheduleReconnect\<close> on a client that holds no socket and was not stopped.\<close>

lemma schedule_again:
  assumes "maxRetries (options c) = int n" "retryCount c = k" "k < n" "ws c = None"
    "\<not> intentionalDisconnect c" "\<not> isDisposed c" "onReconnectFailedCb c"
  shows "reconnecting n (Suc k) (scheduleReconnect c)"
    and "fired OnReconnectFailed (scheduleReconnect c) = fired OnReconnectFailed c"
  using assms
  by (simp_all add: scheduleReconnect_def reconnecting_def Let_def log_fields fired_update)

lemma schedule_last:
  assumes "maxRetries (options c) = int n" "retryCount c = n" "retryTimer c = None" "ws c = None"
    "\<not> intentionalDisconnect c" "\<not> isDisposed c" "onReconnectFailedCb c"
  shows "exhausted (scheduleReconnect c)"
    and "fired OnReconnectFailed (scheduleReconnect c) = Suc (fired OnReconnectFailed c)"
  using assms
  by (simp_all add: scheduleReconnect_def exhausted_def log_fields fire_fields fired_fire_same)

text \<open>The state in which a failed attempt calls \<^verbatim>\<open>scheduleReconnect\<close>.\<close>

lemma failedAttempt_run:
  assumes "reconnecting n k c"
  shows "\<exists>c1. run (failedAttempt f) c = scheduleReconnect c1
           \<and> maxRetries (options c1) = int n \<and> retryCount c1 = k \<and> retryTimer c1 = None
           \<and> ws c1 = None \<and> \<not> intentionalDisconnect c1 \<and> \<not> isDisposed c1
           \<and> onReconnectFailedCb c1
           \<and> fired OnReconnectFailed c1 = fired OnReconnectFailed c"
proof (cases f)
  case (AtDiscovery e)
  let ?c1 = "emit (HttpGet (port c)) (c\<lparr>retryTimer := None\<rparr>)"
  have "run (failedAttempt f) c = scheduleReconnect ?c1"
    using assms AtDiscovery
    by (auto simp add: reconnecting_def retryTimerFired_def doConnect_def discoveryFailed_def
          settleConnect_def Let_def emit_def)
  moreover have "maxRetries (options ?c1) = int n \<and> retryCount ?c1 = k \<and> retryTimer ?c1 = None
           \<and> ws ?c1 = None \<and> \<not> intentionalDisconnect ?c1 \<and> \<not> isDisposed ?c1
           \<and> onReconnectFailedCb ?c1
           \<and> fired OnReconnectFailed ?c1 = fired OnReconnectFailed c"
    using assms by (simp add: reconnecting_def fired_emit fired_update) (simp add: emit_def)
  ultimately show ?thesis by blast
next
  case AtSocket
  let ?c0 = "errorHandler (socketCreated (emit (HttpGet (port c)) (c\<lparr>retryTimer := None\<rparr>)))"
  let ?c1 = "fire OnDisconnect (rejectAllPending ConnectionClosed ((log LogSocketClosed ?c0)\<lparr>ws := None\<rparr>))"
  have f0: "maxRetries (options ?c0) = int n \<and> retryCount ?c0 = k \<and> retryTimer ?c0 = None
           \<and> \<not> intentionalDisconnect ?c0 \<and> \<not> isDisposed ?c0 \<and> onReconnectFailedCb ?c0
           \<and> fired OnReconnectFailed ?c0 = fired OnReconnectFailed c"
    using assms
    by (simp add: reconnecting_def errorHandler_def socketCreated_def log_fields fired_update
          fired_emit)
       (simp add: emit_def)
  then have f1: "maxRetries (options ?c1) = int n \<and> retryCount ?c1 = k \<and> retryTimer ?c1 = None
           \<and> ws ?c1 = None \<and> \<not> intentionalDisconnect ?c1 \<and> \<not> isDisposed ?c1
           \<and> onReconnectFailedCb ?c1
           \<and> fired OnReconnectFailed ?c1 = fired OnReconnectFailed c"
    by (simp add: fire_fields rejectAllPending_fields log_fields fired_fire_other
          fired_rejectAllPending fired_update)
  have "run (failedAttempt f) c = closeHandler ?c0"
    using assms AtSocket
    by (auto simp add: reconnecting_def retryTimerFired_def doConnect_def Let_def)
  also have "\<dots> = scheduleReconnect ?c1"
    using f1 by (simp add: closeHandler_def Let_def)
  finally show ?thesis using f1 by blast
qed

lemma attempt_again:
  assumes "reconnecting n k c" and "k < n"
  shows "reconnecting n (Suc k) (run (failedAttempt f) c)
         \<and> fired OnReconnectFailed (run (failedAttempt f) c) = fired OnReconnectFailed c"
proof -
  from failedAttempt_run [OF assms(1), of f] obtain c1 where
    "run (failedAttempt f) c = scheduleReconnect c1" "maxRetries (options c1) = int n"
    "retryCount c1 = k" "ws c1 = None" "\<not> intentionalDisconnect c1" "\<not> isDisposed c1"
    "onReconnectFailedCb c1" "fired OnReconnectFailed c1 = fired OnReconnectFailed c"
    by blast
  with assms(2) schedule_again [of c1 n k] show ?thesis by simp
qed

lemma attempt_last:
  assumes "reconnecting n n c"
  shows "exhausted (run (failedAttempt f) c)
         \<and> fired OnReconnectFailed (run (failedAttempt f) c) = Suc (fired OnReconnectFailed c)"
proof -
  from failedAttempt_run [OF assms, of f] obtain c1 where
    "run (failedAttempt f) c = scheduleReconnect c1" "maxRetries (options c1) = int n"
    "retryCount c1 = n" "retryTimer c1 = None" "ws c1 = None" "\<not> intentionalDisconnect c1"
    "\<not> isDisposed c1" "onReconnectFailedCb c1"
    "fired OnReconnectFailed c1 = fired OnReconnectFailed c"
    by blast
  with schedule_last [of c1 n] show ?thesis by simp
qed

lemma attempts_again:
  "reconnecting n k c \<Longrightarrow> k + length fs \<le> n \<Longrightarrow>
     reconnecting n (k + length fs) (run (concat (map failedAttempt fs)) c)
     \<and> fired OnReconnectFailed (run (concat (map failedAttempt fs)) c) = fired OnReconnectFailed c"
proof (induction fs arbitrary: k c)
  case Nil
  then show ?case by simp
next
  case (Cons f fs)
  from Cons.prems have "k < n" by simp
  with Cons.prems(1) have 1: "reconnecting n (Suc k) (run (failedAttempt f) c)"
    and 2: "fired OnReconnectFailed (run (failedAttempt f) c) = fired OnReconnectFailed c"
    using attempt_again by blast+
  from Cons.prems have "Suc k + length fs \<le> n" by simp
  from Cons.IH [OF 1 this] 2 show ?case
    by (simp add: run_append)
qed

lemma close_established:
  assumes "ws c = Some OPEN" "retryCount c = 0" "retryTimer c = None"
    "\<not> intentionalDisconnect c" "\<not> isDisposed c" "onReconnectFailedCb c"
    "maxRetries (options c) = int n"
  shows "\<exists>c1. closeHandler c = scheduleReconnect c1
           \<and> maxRetries (options c1) = int n \<and> retryCount c1 = 0 \<and> retryTimer c1 = None
           \<and> ws c1 = None \<and> \<not> intentionalDisconnect c1 \<and> \<not> isDisposed c1
           \<and> onReconnectFailedCb c1
           \<and> fired OnReconnectFailed c1 = fired OnReconnectFailed c"
proof -
  let ?c1 = "fire OnDisconnect (rejectAllPending ConnectionClosed ((log LogSocketClosed c)\<lparr>ws := None\<rparr>))"
  have f1: "maxRetries (options ?c1) = int n \<and> retryCount ?c1 = 0 \<and> retryTimer ?c1 = None
           \<and> ws ?c1 = None \<and> \<not> intentionalDisconnect ?c1 \<and> \<not> isDisposed ?c1
           \<and> onReconnectFailedCb ?c1
           \<and> fired OnReconnectFailed ?c1 = fired OnReconnectFailed c"
    using assms
    by (simp add: fire_fields rejectAllPending_fields log_fields fired_fire_other
          fired_rejectAllPending fired_update)
  then have "closeHandler c = scheduleReconnect ?c1"
    by (simp add: closeHandler_def Let_def)
  with f1 show ?thesis by blast
qed

lemma connect_resets:
  "connect p h c = Inr c' \<Longrightarrow> retryCount c' = 0 \<and> \<not> intentionalDisconnect c'"
  by (auto simp add: connect_def doConnect_def settleConnect_def emit_def split: if_splits)

lemma closed_then_failed:
  assumes est: "ws c = Some OPEN" "retryCount c = 0" "retryTimer c = None"
    "\<not> intentionalDisconnect c" "\<not> isDisposed c" "onReconnectFailedCb c"
    "maxRetries (options c) = int n"
    and len: "length fs < n"
  shows "reconnecting n (Suc (length fs)) (run (WsClose # concat (map failedAttempt fs)) c)
         \<and> fired OnReconnectFailed (run (WsClose # concat (map failedAttempt fs)) c)
             = fired OnReconnectFailed c"
proof -
  from close_established [OF est] obtain c1 where c1:
    "closeHandler c = scheduleReconnect c1" "maxRetries (options c1) = int n"
    "retryCount c1 = 0" "ws c1 = None" "\<not> intentionalDisconnect c1" "\<not> isDisposed c1"
    "onReconnectFailedCb c1" "fired OnReconnectFailed c1 = fired OnReconnectFailed c"
    by blast
  from len have "0 < n" by simp
  with c1 schedule_again [of c1 n 0]
  have 1: "reconnecting n (Suc 0) (closeHandler c)"
    and 2: "fired OnReconnectFailed (closeHandler c) = fired OnReconnectFailed c"
    by simp_all
  from len have "Suc 0 + length fs \<le> n" by simp
  from attempts_again [OF 1 this] 2 show ?thesis by simp
qed

lemma established_eval:
  "ws established = Some OPEN \<and> retryCount established = 0 \<and> retryTimer established = None
   \<and> \<not> intentionalDisconnect established \<and> \<not> isDisposed established
   \<and> onReconnectFailedCb established \<and> maxRetries (options established) = 10
   \<and> messageId established = 1"
  by code_simp

section \<open>Connecting and the id counter\<close>

lemma initial_discovery_failure:
  "connect p h c = Inr c1 \<Longrightarrow>
     effects (discoveryFailed Initial e c1) = effects c1 @ [ConnectSettled (Some e)]
     \<and> retryTimer (discoveryFailed Initial e c1) = retryTimer c1
     \<and> retryTimer c1 = retryTimer c"
  by (auto simp add: connect_def doConnect_def discoveryFailed_def settleConnect_def emit_def
      split: if_splits)

lemma messageId_step: "\<not> sends e \<Longrightarrow> messageId (step e c) = messageId c"
proof (cases e)
  case (Connect p h)
  then show ?thesis
    by (auto simp add: connect_def doConnect_frame split: sum.splits if_splits)
next
  case (WsMessage raw)
  then show ?thesis
    by (auto simp add: handleMessage_def log_frame emit_def Let_def
        split: rawData.splits option.splits)
next
  case WsClose
  then show ?thesis
    by (simp add: closeHandler_def Let_def scheduleReconnect_frame fire_frame
          rejectAllPending_def log_frame)
next
  case (RetryTimerFired h)
  then show ?thesis
    by (simp add: retryTimerFired_def Let_def doConnect_frame split: option.splits)
next
  case (Send m ps t)
  assume "\<not> sends e"
  with Send show ?thesis by simp
next
  case (Observe n)
  then show ?thesis
    by (cases n) (simp_all add: onDisconnect_def onReconnect_def onReconnectFailed_def)
qed (simp_all add: discoveryFailed_def settleConnect_frame socketCreated_def openHandler_def
      Let_def log_frame errorHandler_def callTimerFired_def emit_def disconnect_def
      rejectAllPending_def dispose_def onLog_def split: option.splits)

lemma messageId_run: "\<forall>e \<in> set es. \<not> sends e \<Longrightarrow> messageId (run es c) = messageId c"
  by (induction es arbitrary: c) (simp_all add: messageId_step)

section \<open>The action script as a search\<close>

text \<open>The two string functions against their meaning, and the two loops of the script as
  searches for the first match.\<close>

lemma startsWith_iff: "startsWith s p = (\<exists>q. s = p @ q)"
  by (induction s p rule: startsWith.induct) auto

lemma includes_str_iff: "includes_str s sub = (\<exists>p q. s = p @ sub @ q)"
proof (induction s)
  case Nil
  then show ?case by simp
next
  case (Cons c cs)
  show ?case
  proof
    assume "includes_str (c # cs) sub"
    then consider "startsWith (c # cs) sub" | "includes_str cs sub" by auto
    then show "\<exists>p q. c # cs = p @ sub @ q"
    proof cases
      case 1
      then obtain q where "c # cs = sub @ q" by (auto simp add: startsWith_iff)
      then have "c # cs = [] @ sub @ q" by simp
      then show ?thesis by blast
    next
      case 2
      with Cons obtain p q where "cs = p @ sub @ q" by blast
      then have "c # cs = (c # p) @ sub @ q" by simp
      then show ?thesis by blast
    qed
  next
    assume "\<exists>p q. c # cs = p @ sub @ q"
    then obtain p q where pq: "c # cs = p @ sub @ q" by blast
    show "includes_str (c # cs) sub"
    proof (cases p)
      case Nil
      with pq have "startsWith (c # cs) sub" by (auto simp add: startsWith_iff)
      then show ?thesis by simp
    next
      case (Cons d ds)
      with pq have "cs = ds @ sub @ q" by simp
      with Cons.IH have "includes_str cs sub" by blast
      then show ?thesis by simp
    qed
  qed
qed

lemma firstBlocked_find: "firstBlocked txt bl = find (includes_str txt) bl"
  by (induction bl) simp_all

lemma scanButtons_find:
  "scanButtons bl txt bs =
     (case find candidate bs of
        None \<Rightarrow> (''none'', None)
      | Some b \<Rightarrow>
          if label b = ''run''
          then (case firstBlocked txt bl of
                  Some s \<Rightarrow> (''blocked: '' @ s, None)
                | None \<Rightarrow> (''clicked_'' @ label b, Some b))
          else (''clicked_'' @ label b, Some b))"
  by (induction bs) (simp_all add: candidate_def)

section \<open>The supervisor and its client\<close>

subsection \<open>The client's effects only grow\<close>

lemma grows_log: "\<exists>new. effects (log m c) = effects c @ new \<and> settled new = []"
  by (simp add: log_def emit_def)

lemma grows_fire: "\<exists>new. effects (fire n c) = effects c @ new \<and> settled new = []"
  by (simp add: fire_def emit_def)

lemma grows_trans:
  "\<exists>new. effects c1 = effects c @ new \<Longrightarrow> \<exists>new. effects c2 = effects c1 @ new
   \<Longrightarrow> \<exists>new. effects c2 = effects c @ new"
  by auto

lemma grows_scheduleReconnect: "\<exists>new. effects (scheduleReconnect c) = effects c @ new"
  by (auto simp add: scheduleReconnect_def Let_def log_def fire_def emit_def)

lemma grows_settleConnect: "\<exists>new. effects (settleConnect w r c) = effects c @ new"
  by (auto simp add: settleConnect_def scheduleReconnect_def Let_def log_def fire_def emit_def
      split: caller.splits option.splits)

lemma grows_doConnect: "\<exists>new. effects (doConnect w h c) = effects c @ new"
  using grows_settleConnect by (auto simp add: doConnect_def emit_def)

lemma grows_connect: "connect p h c = Inr c' \<Longrightarrow> \<exists>new. effects c' = effects c @ new"
  using grows_doConnect [of Initial h "c\<lparr>port := p, intentionalDisconnect := False, retryCount := 0\<rparr>"]
  by (auto simp add: connect_def split: if_splits)

lemma grows_send: "send m ps t c = Inr (i, c') \<Longrightarrow> \<exists>new. effects c' = effects c @ new"
  by (auto simp add: send_def emit_def Let_def split: if_splits)

lemma grows_disconnect: "\<exists>new. effects (disconnect c) = effects c @ new"
  by (auto simp add: disconnect_def rejectAllPending_def emit_def Let_def split: option.splits)

lemma grows_closeHandler: "\<exists>new. effects (closeHandler c) = effects c @ new"
proof -
  let ?c3 = "rejectAllPending ConnectionClosed ((log LogSocketClosed c)\<lparr>ws := None\<rparr>)"
  have "\<exists>new. effects ?c3 = effects c @ new"
    by (auto simp add: rejectAllPending_def log_def emit_def)
  moreover have "\<exists>new. effects (fire OnDisconnect ?c3) = effects ?c3 @ new"
    using grows_fire by blast
  moreover have "\<exists>new. effects (scheduleReconnect (fire OnDisconnect ?c3))
                   = effects (fire OnDisconnect ?c3) @ new"
    by (rule grows_scheduleReconnect)
  ultimately show ?thesis
    by (auto simp add: closeHandler_def Let_def)
qed

lemma grows_step: "\<exists>new. effects (step e c) = effects c @ new"
proof (cases e)
  case (Connect p h)
  then show ?thesis
    using grows_connect [of p h c] by (auto split: sum.splits)
next
  case (DiscoveryFailed w x)
  then show ?thesis by (simp add: discoveryFailed_def grows_settleConnect)
next
  case (WsOpen w)
  let ?c3 = "(log LogConnected (c\<lparr>ws := map_option (\<lambda>_. OPEN) (ws c)\<rparr>))\<lparr>retryCount := 0\<rparr>"
  have a: "\<exists>new. effects ?c3 = effects c @ new"
    by (simp add: log_def emit_def)
  have b: "\<exists>new. effects (settleConnect w None ?c3) = effects ?c3 @ new"
    by (rule grows_settleConnect)
  from grows_trans [OF a b] WsOpen show ?thesis
    by (simp add: openHandler_def Let_def)
next
  case (WsMessage raw)
  then show ?thesis
    by (auto simp add: handleMessage_def log_def emit_def Let_def
        split: rawData.splits option.splits)
next
  case WsClose
  then show ?thesis by (simp add: grows_closeHandler)
next
  case (RetryTimerFired h)
  then show ?thesis
    using grows_doConnect [of Retry h "c\<lparr>retryTimer := None\<rparr>"]
    by (auto simp add: retryTimerFired_def Let_def split: option.splits)
next
  case (Send m ps t)
  then show ?thesis
    using grows_send [of m ps t c] by (auto split: sum.splits)
next
  case (Observe n)
  then show ?thesis
    by (cases n) (simp_all add: onDisconnect_def onReconnect_def onReconnectFailed_def)
next
  case Disconnect
  then show ?thesis by (simp add: grows_disconnect)
next
  case Dispose
  then show ?thesis by (simp add: dispose_def disconnect_def Let_def)
qed (auto simp add: socketCreated_def errorHandler_def log_def emit_def callTimerFired_def
      Let_def onLog_def)

text \<open>A call that left the table was settled on the way.\<close>

lemma settle_removed:
  assumes "pendingInv c" "pendingInv c'" "effects c' = effects c @ new"
  shows "set (callbacks c) \<subseteq> set (callbacks c') \<union> set (settled new)"
proof
  fix i assume i: "i \<in> set (callbacks c)"
  with assms(1) have "i \<in> set (registered (effects c))" and ns: "i \<notin> set (settled (effects c))"
    by (auto simp add: pendingInv_def)
  then have "i \<in> set (registered (effects c'))"
    by (simp add: assms(3) registered_append)
  with assms(2) have "i \<in> set (callbacks c') \<or> i \<in> set (settled (effects c'))"
    by (auto simp add: pendingInv_def)
  with ns show "i \<in> set (callbacks c') \<union> set (settled new)"
    by (auto simp add: assms(3) settled_append)
qed

subsection \<open>The supervisor's bookkeeping\<close>

lemma tell_fields:
  "cdp (tell e a) = cdp a" "polls (tell e a) = polls a"
  "isPollInProgress (tell e a) = isPollInProgress a" "disposed (tell e a) = disposed a"
  "isRunning (tell e a) = isRunning a"
  by (simp_all add: tell_def)

lemma hlog_fields:
  "cdp (hlog m a) = cdp a" "polls (hlog m a) = polls a"
  "isPollInProgress (hlog m a) = isPollInProgress a" "disposed (hlog m a) = disposed a"
  "isRunning (hlog m a) = isRunning a"
  by (simp_all add: hlog_def tell_fields)

lemma updateStatusBar_fields:
  "cdp (updateStatusBar st a) = cdp a" "polls (updateStatusBar st a) = polls a"
  "isPollInProgress (updateStatusBar st a) = isPollInProgress a"
  "disposed (updateStatusBar st a) = disposed a"
  "isRunning (updateStatusBar st a) = isRunning a"
  by (simp_all add: updateStatusBar_def tell_fields)

lemma resumePolling_fields:
  "cdp (resumePolling a) = cdp a" "polls (resumePolling a) = polls a"
  "isPollInProgress (resumePolling a) = isPollInProgress a"
  "disposed (resumePolling a) = disposed a" "isRunning (resumePolling a) = isRunning a"
  by (simp_all add: resumePolling_def)

lemma pausePolling_fields:
  "cdp (pausePolling a) = cdp a" "polls (pausePolling a) = polls a"
  "isPollInProgress (pausePolling a) = isPollInProgress a"
  "disposed (pausePolling a) = disposed a" "isRunning (pausePolling a) = isRunning a"
  by (simp_all add: pausePolling_def)

lemmas host_fields =
  tell_fields hlog_fields updateStatusBar_fields resumePolling_fields pausePolling_fields

lemma callback_fields:
  "cdp (callback e a) = cdp a" "polls (callback e a) = polls a"
  "isPollInProgress (callback e a) = isPollInProgress a"
proof -
  have "cdp (callback e a) = cdp a \<and> polls (callback e a) = polls a
        \<and> isPollInProgress (callback e a) = isPollInProgress a"
  proof (cases e)
    case (Fired n)
    then show ?thesis by (cases n) (simp_all add: host_fields)
  qed (simp_all add: host_fields)
  then show "cdp (callback e a) = cdp a" "polls (callback e a) = polls a"
    "isPollInProgress (callback e a) = isPollInProgress a"
    by simp_all
qed

lemma callbacks_fields:
  "cdp (fold callback es a) = cdp a \<and> polls (fold callback es a) = polls a
   \<and> isPollInProgress (fold callback es a) = isPollInProgress a"
  by (induction es arbitrary: a) (simp_all add: callback_fields)

lemma sync_fields:
  "cdp (sync c' a) = c'" "polls (sync c' a) = polls a"
  "isPollInProgress (sync c' a) = isPollInProgress a"
  by (simp_all add: sync_def callbacks_fields)

lemma pollEnd_fields:
  "cdp (pollEnd r a) = cdp a" "polls (pollEnd r a) = polls a" "\<not> isPollInProgress (pollEnd r a)"
  by (simp_all add: pollEnd_def Let_def host_fields split: sum.splits option.splits)

lemma startEnd_fields:
  "cdp (startEnd r a) = cdp a" "polls (startEnd r a) = polls a"
  "isPollInProgress (startEnd r a) = isPollInProgress a"
  by (simp_all add: startEnd_def host_fields split: option.splits)

lemma continuation_cdp: "cdp (continuation e a) = cdp a"
  by (cases e) (simp_all add: pollEnd_fields startEnd_fields)

lemma continuation_polls: "set (polls (continuation e a)) = set (polls a) - set (settled [e])"
  by (cases e) (auto simp add: pollEnd_fields startEnd_fields)

lemma continuation_guard: "guardInv a \<Longrightarrow> guardInv (continuation e a)"
proof (cases e)
  case (Settled i r)
  assume g: "guardInv a"
  show ?thesis
  proof (cases "i \<in> set (polls a)")
    case True
    with g have "polls a = [i]"
      by (cases "polls a") (auto simp add: guardInv_def)
    with Settled show ?thesis
      by (simp add: guardInv_def pollEnd_fields)
  next
    case False
    with Settled g show ?thesis by simp
  qed
next
  case (ConnectSettled r)
  assume "guardInv a"
  with ConnectSettled show ?thesis
    by (simp add: guardInv_def startEnd_fields)
qed simp_all

lemma continuations:
  "guardInv a \<Longrightarrow>
     guardInv (fold continuation es a) \<and> cdp (fold continuation es a) = cdp a
     \<and> set (polls (fold continuation es a)) = set (polls a) - set (settled es)"
proof (induction es arbitrary: a)
  case Nil
  then show ?case by simp
next
  case (Cons e es)
  from Cons.prems have "guardInv (continuation e a)" by (rule continuation_guard)
  from Cons.IH [OF this]
  have "guardInv (fold continuation es (continuation e a))"
    and "cdp (fold continuation es (continuation e a)) = cdp a"
    and "set (polls (fold continuation es (continuation e a)))
          = set (polls a) - set (settled [e]) - set (settled es)"
    by (simp_all add: continuation_cdp continuation_polls del: settled.simps continuation.simps)
  moreover have "settled (e # es) = settled [e] @ settled es"
    using settled_append [of "[e]" es] by simp
  ultimately show ?case
    by (auto simp del: settled.simps continuation.simps)
qed

lemma task_advances:
  assumes "advances a (f a)"
  shows "waitingInv (task f a)"
proof -
  from assms obtain new where g: "guardInv (f a)" and p: "pendingInv (cdp (f a))"
    and new: "effects (cdp (f a)) = effects (cdp a) @ new"
    and sub: "set (polls (f a)) \<subseteq> set (callbacks (cdp (f a))) \<union> set (settled new)"
    by (auto simp add: advances_def)
  have t: "task f a = fold continuation new (f a)"
    by (simp add: task_def Let_def new)
  from continuations [OF g, of new] sub p show ?thesis
    unfolding t waitingInv_def by auto
qed

lemma advances_frame:
  assumes "waitingInv a" "polls a' = polls a" "isPollInProgress a' = isPollInProgress a"
    "pendingInv (cdp a')" "\<exists>new. effects (cdp a') = effects (cdp a) @ new"
  shows "advances a a'"
proof -
  from assms(5) obtain new where new: "effects (cdp a') = effects (cdp a) @ new" by blast
  from assms(1) have p: "pendingInv (cdp a)" and "set (polls a) \<subseteq> set (callbacks (cdp a))"
    by (simp_all add: waitingInv_def)
  with settle_removed [OF p assms(4) new]
  have "set (polls a') \<subseteq> set (callbacks (cdp a')) \<union> set (settled new)"
    using assms(2) by auto
  moreover have "guardInv a'"
    using assms(1-3) by (simp add: waitingInv_def guardInv_def)
  ultimately show ?thesis
    using assms(4) new by (auto simp add: advances_def)
qed

lemma advances_startBegin: "waitingInv a \<Longrightarrow> advances a (startBegin h a)"
proof -
  assume w: "waitingInv a"
  then have p: "pendingInv (cdp a)" by (simp add: waitingInv_def)
  show ?thesis
  proof (cases "connect 9222 h (cdp a)")
    case (Inl e)
    with w p show ?thesis
      by (intro advances_frame)
         (simp_all add: startBegin_def Let_def host_fields startEnd_fields)
  next
    case (Inr c')
    from pendingInv_connect [OF p Inr] grows_connect [OF Inr] w p Inr show ?thesis
      by (intro advances_frame)
         (simp_all add: startBegin_def Let_def host_fields sync_fields)
  qed
qed

lemma advances_stop: "waitingInv a \<Longrightarrow> advances a (stop a)"
proof -
  assume w: "waitingInv a"
  then have p: "pendingInv (cdp a)" by (simp add: waitingInv_def)
  from pendingInv_disconnect [OF p] grows_disconnect [of "cdp a"] w p show ?thesis
    by (intro advances_frame)
       (simp_all add: stop_def Let_def host_fields sync_fields)
qed

lemma advances_toggle: "waitingInv a \<Longrightarrow> advances a (toggle h a)"
proof -
  assume w: "waitingInv a"
  then have p: "pendingInv (cdp a)" by (simp add: waitingInv_def)
  have "advances a (hlog CannotToggle a)"
    using w p by (intro advances_frame) (simp_all add: host_fields)
  with w show ?thesis
    by (simp add: toggle_def advances_stop advances_startBegin)
qed

lemma advances_disposeAcceptor: "waitingInv a \<Longrightarrow> advances a (disposeAcceptor a)"
proof -
  assume w: "waitingInv a"
  then have p: "pendingInv (cdp a)" by (simp add: waitingInv_def)
  from pendingInv_disconnect [OF p] grows_disconnect [of "cdp a"] w p show ?thesis
    by (intro advances_frame)
       (simp_all add: disposeAcceptor_def Let_def host_fields sync_fields)
qed

lemma advances_client: "waitingInv a \<Longrightarrow> advances a (sync (step e (cdp a)) a)"
proof -
  assume w: "waitingInv a"
  then have p: "pendingInv (cdp a)" by (simp add: waitingInv_def)
  from pendingInv_step [OF p, of e] grows_step [of e "cdp a"] w show ?thesis
    by (intro advances_frame) (simp_all add: sync_fields)
qed

lemma send_registers:
  assumes "pendingInv c" "send m ps t c = Inr (i, c')"
  shows "\<exists>new. effects c' = effects c @ new \<and> (i \<in> set (callbacks c') \<or> i \<in> set (settled new))"
proof -
  have "messageId c \<notin> set (callbacks c)"
    using assms(1) by (auto simp add: pendingInv_def)
  with assms(2) show ?thesis
    by (auto simp add: send_def emit_def Let_def mapSet_def split: if_splits)
qed

lemma advances_pollBegin: "waitingInv a \<Longrightarrow> advances a (pollBegin cfg t a)"
proof -
  assume w: "waitingInv a"
  then have p: "pendingInv (cdp a)" and g: "guardInv a"
    and sub: "set (polls a) \<subseteq> set (callbacks (cdp a))"
    by (simp_all add: waitingInv_def)
  have same: "advances a a"
    using w p by (intro advances_frame) simp_all
  show ?thesis
  proof (cases "pollCall cfg t a")
    case None
    with same show ?thesis by (simp add: pollBegin_def)
  next
    case (Some r)
    then have idle: "\<not> isPollInProgress a"
      by (auto simp add: pollCall_def split: if_splits)
    with g have empty: "polls a = []"
      by (simp add: guardInv_def)
    show ?thesis
    proof (cases r)
      case (Inl e)
      with Some empty p show ?thesis
        by (simp add: pollBegin_def Let_def advances_def guardInv_def pollEnd_fields)
    next
      case (Inr ic)
      obtain i c' where ic: "ic = (i, c')" by (cases ic)
      with Some Inr have snd: "send ''Runtime.evaluate''
          (Evaluate (case cfg of Some b \<Rightarrow> b | None \<Rightarrow> defaultBlocked)) t (cdp a) = Inr (i, c')"
        by (auto simp add: pollCall_def Let_def split: if_splits)
      from send_registers [OF p snd] obtain new where
        new: "effects c' = effects (cdp a) @ new" "i \<in> set (callbacks c') \<or> i \<in> set (settled new)"
        by blast
      have a': "pollBegin cfg t a = (sync c' (a\<lparr>isPollInProgress := True\<rparr>))\<lparr>polls := [i]\<rparr>"
        using Some Inr ic empty by (simp add: pollBegin_def Let_def)
      show ?thesis
        unfolding a' advances_def
        using new pendingInv_send [OF p snd]
        by (auto simp add: guardInv_def sync_fields)
    qed
  qed
qed

lemma waitingInv_exec: "waitingInv a \<Longrightarrow> waitingInv (exec x a)"
proof (cases x)
  case (Client e)
  assume "waitingInv a"
  with Client show ?thesis
    using task_advances [of a "\<lambda>a. sync (step e (cdp a)) a"]
    by (simp add: advances_client)
qed (simp_all add: task_advances advances_pollBegin advances_startBegin advances_stop
      advances_toggle advances_disposeAcceptor)

lemma waitingInv_execAll: "waitingInv a \<Longrightarrow> waitingInv (execAll xs a)"
  by (induction xs arbitrary: a) (simp_all add: waitingInv_exec)

lemma waitingInv_newAcceptor: "waitingInv newAcceptor"
  by (simp add: waitingInv_def guardInv_def pendingInv_def newAcceptor_def updateStatusBar_def
        tell_def onReconnectFailed_def onReconnect_def onDisconnect_def onLog_def newClient_def)

lemma send_throws:
  "send m ps True c = Inr (i, c') \<Longrightarrow>
     \<exists>new. effects c' = effects c @ new \<and> i \<in> set (settled new)"
  by (auto simp add: send_def emit_def Let_def split: if_splits)

lemma task_skip: "f a = a \<Longrightarrow> task f a = a"
  by (simp add: task_def)

lemma failed_tick_clears_guard:
  assumes w: "waitingInv a" and idle: "\<not> isPollInProgress a"
  shows "\<not> isPollInProgress (task (pollBegin cfg True) a)"
proof (cases "pollCall cfg True a")
  case None
  then have "task (pollBegin cfg True) a = a"
    by (intro task_skip) (simp add: pollBegin_def)
  with idle show ?thesis by simp
next
  case (Some r)
  from w idle have empty: "polls a = []"
    by (simp add: waitingInv_def guardInv_def)
  show ?thesis
  proof (cases r)
    case (Inl e)
    with Some have "task (pollBegin cfg True) a = pollEnd (Inl e) (a\<lparr>isPollInProgress := True\<rparr>)"
      by (simp add: task_def pollBegin_def Let_def pollEnd_fields)
    then show ?thesis by (simp add: pollEnd_fields)
  next
    case (Inr ic)
    obtain i c' where ic: "ic = (i, c')" by (cases ic)
    with Some Inr have snd: "send ''Runtime.evaluate''
        (Evaluate (case cfg of Some b \<Rightarrow> b | None \<Rightarrow> defaultBlocked)) True (cdp a) = Inr (i, c')"
      by (auto simp add: pollCall_def Let_def split: if_splits)
    from send_throws [OF snd] obtain new where
      new: "effects c' = effects (cdp a) @ new" "i \<in> set (settled new)"
      by blast
    let ?a' = "(sync c' (a\<lparr>isPollInProgress := True\<rparr>))\<lparr>polls := [i]\<rparr>"
    have a': "pollBegin cfg True a = ?a'"
      using Some Inr ic empty by (simp add: pollBegin_def Let_def)
    have g: "guardInv ?a'"
      by (simp add: guardInv_def sync_fields)
    have t: "task (pollBegin cfg True) a = fold continuation new ?a'"
      by (simp add: task_def Let_def a' sync_fields new)
    from continuations [OF g, of new] new(2)
    have "guardInv (fold continuation new ?a')" and "polls (fold continuation new ?a') = []"
      by simp_all
    then show ?thesis
      unfolding t by (simp add: guardInv_def)
  qed
qed

section \<open>Claims about the session client\<close>

text \<open>
  C9. \<^verbatim>\<open>disconnect()\<close> is idempotent: a second call right after the first changes
  nothing at all, neither a field of the client (the intentional-disconnect flag, the retry
  timer, the table of pending calls, the socket handle) nor anything observable (no promise
  is settled again, the socket is not closed again). The function is total: no path of
  \<^verbatim>\<open>disconnect\<close> throws.
\<close>

theorem disconnect_idempotent: "disconnect (disconnect c) = disconnect c"
  by (simp add: disconnect_def rejectAllPending_def emit_def Let_def split: option.splits)

text \<open>
  C1. \<^verbatim>\<open>dispose()\<close> sets \<^verbatim>\<open>isDisposed\<close> before it calls \<^verbatim>\<open>disconnect()\<close>, whose
  first line returns when \<^verbatim>\<open>isDisposed\<close> is set. So the cleanup the claim states is
  skipped: on a connected client with one call pending, \<^verbatim>\<open>dispose()\<close> leaves the call
  in the table with its timer armed, settles nothing, and leaves the socket open; on a
  client waiting to reconnect it leaves the retry timer armed.
\<close>

theorem dispose_skips_disconnect:
  "(let c = run [Send ''Runtime.evaluate'' NoParams False] established; d = dispose c
    in \<not> isDisposed c \<and> callbacks c = [1] \<and> ws c = Some OPEN
       \<and> isDisposed d \<and> callbacks d = [1] \<and> 1 \<in> timers d \<and> ws d = Some OPEN
       \<and> effects d = effects c)
   \<and> (let c = run [WsClose] established
       in retryTimer c = Some 1000 \<and> retryTimer (dispose c) = Some 1000)"
  by code_simp

text \<open>
  C5. When \<^verbatim>\<open>scheduleReconnect\<close> arms the retry timer for attempt number \<open>n\<close> (the value
  of \<^verbatim>\<open>retryCount\<close> on entry), the delay is \<open>min (initialDelay * 2 ^ n) maxDelay\<close>; with
  the default options, the closure of an established connection followed by \<open>k\<close> failed
  attempts arms the timer with 1000, 2000, 4000, 8000, 16000, 30000 for \<open>k = 0, ..., 5\<close>.
\<close>

theorem reconnect_delay:
  "(\<not> intentionalDisconnect c \<and> \<not> isDisposed c \<and> int (retryCount c) < maxRetries (options c)
      \<longrightarrow> retryTimer (scheduleReconnect c)
            = Some (min (initialRetryDelay (options c) * 2 ^ retryCount c)
                        (maxRetryDelay (options c))))
   \<and> map (\<lambda>k. retryTimer
               (run (WsClose # concat (replicate k (failedAttempt (AtDiscovery EndpointUnreachable))))
                  established))
         [0, 1, 2, 3, 4, 5]
       = map Some [1000, 2000, 4000, 8000, 16000, 30000]"
proof
  show "\<not> intentionalDisconnect c \<and> \<not> isDisposed c \<and> int (retryCount c) < maxRetries (options c)
      \<longrightarrow> retryTimer (scheduleReconnect c)
            = Some (min (initialRetryDelay (options c) * 2 ^ retryCount c)
                        (maxRetryDelay (options c)))"
    by (simp add: scheduleReconnect_def Let_def log_def emit_def)
  show "map (\<lambda>k. retryTimer
               (run (WsClose # concat (replicate k (failedAttempt (AtDiscovery EndpointUnreachable))))
                  established))
         [0, 1, 2, 3, 4, 5]
       = map Some [1000, 2000, 4000, 8000, 16000, 30000]"
    by code_simp
qed

theorem reconnect_delay_witness:
  "(let c = (newClient DEFAULT_OPTIONS)\<lparr>retryCount := 3\<rparr>
    in \<not> intentionalDisconnect c \<and> \<not> isDisposed c \<and> int (retryCount c) < maxRetries (options c)
       \<and> retryTimer (scheduleReconnect c) = Some 8000)"
  using reconnect_delay [of "(newClient DEFAULT_OPTIONS)\<lparr>retryCount := 3\<rparr>"]
  by (simp add: newClient_def DEFAULT_OPTIONS_def)

text \<open>
  C3. In every run of a client, whatever the order of calls, responses, timeouts, send
  failures, closures and disconnects: the ids registered in the table are pairwise distinct
  (and the id a further \<^verbatim>\<open>send\<close> assigns differs from all of them); no id is settled
  twice; every registered id is either still in the table or has been settled, never both;
  and a call still in the table has its timeout timer armed, which settles it when it fires.
  So every pending call is settled exactly once.
\<close>

theorem pending_calls_settled_once:
  "(let c = run evs (newClient opts)
    in distinct (registered (effects c)) \<and> distinct (settled (effects c))
       \<and> set (registered (effects c)) = set (callbacks c) \<union> set (settled (effects c))
       \<and> set (callbacks c) \<inter> set (settled (effects c)) = {}
       \<and> timers c = set (callbacks c)
       \<and> (\<forall>i \<in> set (callbacks c).
            settled (effects (callTimerFired i c)) = settled (effects c) @ [i]
            \<and> i \<notin> set (callbacks (callTimerFired i c)))
       \<and> (\<forall>m ps t i c'. send m ps t c = Inr (i, c') \<longrightarrow>
            i \<notin> set (registered (effects c)) \<and> registered (effects c') = registered (effects c) @ [i]))"
proof -
  define c where "c = run evs (newClient opts)"
  have inv: "pendingInv c"
    unfolding c_def by (rule pendingInv_run) (rule pendingInv_newClient)
  have a: "distinct (registered (effects c)) \<and> distinct (settled (effects c))
       \<and> set (registered (effects c)) = set (callbacks c) \<union> set (settled (effects c))
       \<and> set (callbacks c) \<inter> set (settled (effects c)) = {}
       \<and> timers c = set (callbacks c)"
    using inv by (simp add: pendingInv_def)
  have b: "\<forall>i \<in> set (callbacks c).
            settled (effects (callTimerFired i c)) = settled (effects c) @ [i]
            \<and> i \<notin> set (callbacks (callTimerFired i c))"
    using inv by (simp add: timeout_settles)
  have fresh: "messageId c \<notin> set (registered (effects c))"
    using inv by (auto simp add: pendingInv_def)
  have d: "\<forall>m ps t i c'. send m ps t c = Inr (i, c') \<longrightarrow>
            i \<notin> set (registered (effects c)) \<and> registered (effects c') = registered (effects c) @ [i]"
    using fresh
    by (auto simp add: send_def emit_def Let_def mapSet_def registered_append split: if_splits)
  from a b d show ?thesis
    unfolding c_def [symmetric] Let_def by blast
qed

theorem pending_calls_settled_once_witness:
  "(let c = run [Connect 9222 False, SocketCreated, WsOpen Initial,
                 Send ''Runtime.evaluate'' NoParams False, Send ''Runtime.evaluate'' NoParams True,
                 Send ''Runtime.evaluate'' NoParams False, Send ''Runtime.evaluate'' NoParams False,
                 WsMessage (TextData (Some \<lparr>msg_id = Some 1, msg_error = None, msg_result = None\<rparr>)),
                 WsMessage (TextData (Some \<lparr>msg_id = Some 1, msg_error = None, msg_result = None\<rparr>)),
                 CallTimerFired 3]
              (newClient DEFAULT_OPTIONS)
    in callbacks c = [4] \<and> registered (effects c) = [1, 2, 3, 4] \<and> settled (effects c) = [2, 1, 3]
       \<and> settled (effects (callTimerFired 4 c)) = settled (effects c) @ [4])"
proof -
  let ?c = "run [Connect 9222 False, SocketCreated, WsOpen Initial,
                 Send ''Runtime.evaluate'' NoParams False, Send ''Runtime.evaluate'' NoParams True,
                 Send ''Runtime.evaluate'' NoParams False, Send ''Runtime.evaluate'' NoParams False,
                 WsMessage (TextData (Some \<lparr>msg_id = Some 1, msg_error = None, msg_result = None\<rparr>)),
                 WsMessage (TextData (Some \<lparr>msg_id = Some 1, msg_error = None, msg_result = None\<rparr>)),
                 CallTimerFired 3]
              (newClient DEFAULT_OPTIONS)"
  have ev: "callbacks ?c = [4] \<and> registered (effects ?c) = [1, 2, 3, 4]
            \<and> settled (effects ?c) = [2, 1, 3]"
    by code_simp
  have "\<forall>i \<in> set (callbacks ?c).
          settled (effects (callTimerFired i ?c)) = settled (effects ?c) @ [i]"
    using pending_calls_settled_once
      [of "[Connect 9222 False, SocketCreated, WsOpen Initial,
            Send ''Runtime.evaluate'' NoParams False, Send ''Runtime.evaluate'' NoParams True,
            Send ''Runtime.evaluate'' NoParams False, Send ''Runtime.evaluate'' NoParams False,
            WsMessage (TextData (Some \<lparr>msg_id = Some 1, msg_error = None, msg_result = None\<rparr>)),
            WsMessage (TextData (Some \<lparr>msg_id = Some 1, msg_error = None, msg_result = None\<rparr>)),
            CallTimerFired 3]" DEFAULT_OPTIONS]
    unfolding Let_def by blast
  with ev have "settled (effects (callTimerFired 4 ?c)) = settled (effects ?c) @ [4]"
    by simp
  with ev show ?thesis
    unfolding Let_def by blast
qed

text \<open>
  C6. Take an established connection (socket open, retry counter 0, no retry timer, neither
  disconnected on purpose nor disposed) with an exhaustion observer registered and
  \<open>maxRetries = n\<close>. After it closes unexpectedly and \<open>n\<close> reconnection attempts in a
  row fail, each at discovery or at the socket, the client is exhausted, the exhaustion
  observer has been invoked exactly once more than before, no retry timer is armed (the
  timer callback has nothing to run), and a later \<^verbatim>\<open>connect\<close> starts again from retry
  counter 0. After fewer than \<open>n\<close> failed attempts the next attempt is still scheduled
  and the observer has not been invoked.
\<close>

theorem reconnect_exhausted:
  assumes est: "ws c = Some OPEN" "retryCount c = 0" "retryTimer c = None"
    "\<not> intentionalDisconnect c" "\<not> isDisposed c" "onReconnectFailedCb c"
    and n: "maxRetries (options c) = int (length fs)"
  shows "(let c' = run (WsClose # concat (map failedAttempt fs)) c
          in exhausted c'
             \<and> fired OnReconnectFailed c' = Suc (fired OnReconnectFailed c)
             \<and> retryTimerFired h c' = c'
             \<and> (\<forall>p h' c''. connect p h' c' = Inr c'' \<longrightarrow> retryCount c'' = 0))
         \<and> (\<forall>k < length fs.
               let ck = run (WsClose # concat (map failedAttempt (take k fs))) c
               in reconnecting (length fs) (Suc k) ck
                  \<and> fired OnReconnectFailed ck = fired OnReconnectFailed c)"
proof -
  let ?n = "length fs"
  let ?c' = "run (WsClose # concat (map failedAttempt fs)) c"
  have before: "\<forall>k < ?n.
      let ck = run (WsClose # concat (map failedAttempt (take k fs))) c
      in reconnecting ?n (Suc k) ck \<and> fired OnReconnectFailed ck = fired OnReconnectFailed c"
  proof (intro allI impI)
    fix k assume k: "k < ?n"
    then have "length (take k fs) < ?n" by simp
    from closed_then_failed [OF est n this] k
    show "let ck = run (WsClose # concat (map failedAttempt (take k fs))) c
      in reconnecting ?n (Suc k) ck \<and> fired OnReconnectFailed ck = fired OnReconnectFailed c"
      by (simp add: Let_def min_def)
  qed
  have final: "exhausted ?c' \<and> fired OnReconnectFailed ?c' = Suc (fired OnReconnectFailed c)"
  proof (cases fs rule: rev_cases)
    case Nil
    from close_established [OF est n] obtain c1 where c1:
      "closeHandler c = scheduleReconnect c1" "maxRetries (options c1) = int ?n"
      "retryCount c1 = 0" "retryTimer c1 = None" "ws c1 = None" "\<not> intentionalDisconnect c1"
      "\<not> isDisposed c1" "onReconnectFailedCb c1"
      "fired OnReconnectFailed c1 = fired OnReconnectFailed c"
      by blast
    with Nil schedule_last [of c1 0] show ?thesis by simp
  next
    case (snoc gs f)
    then have "length gs < ?n" by simp
    from closed_then_failed [OF est n this] snoc
    have 1: "reconnecting ?n ?n (run (WsClose # concat (map failedAttempt gs)) c)"
      and 2: "fired OnReconnectFailed (run (WsClose # concat (map failedAttempt gs)) c)
              = fired OnReconnectFailed c"
      by simp_all
    have "?c' = run (failedAttempt f) (run (WsClose # concat (map failedAttempt gs)) c)"
      using snoc run_append [of "WsClose # concat (map failedAttempt gs)" "failedAttempt f" c]
      by simp
    with attempt_last [OF 1, of f] 2 show ?thesis by simp
  qed
  then have "retryTimerFired h ?c' = ?c'"
    by (simp add: exhausted_def retryTimerFired_def)
  moreover have "\<forall>p h' c''. connect p h' ?c' = Inr c'' \<longrightarrow> retryCount c'' = 0"
    using connect_resets by blast
  ultimately show ?thesis
    using final before unfolding Let_def by blast
qed

theorem reconnect_exhausted_witness:
  "(let c' = run (WsClose # concat (map failedAttempt
                  [AtSocket, AtDiscovery EndpointUnreachable, AtSocket, AtDiscovery DiscoveryTimedOut,
                   AtSocket, AtSocket, AtDiscovery NoTargets, AtSocket, AtSocket, AtSocket]))
               established
    in ws established = Some OPEN \<and> maxRetries (options established) = 10
       \<and> exhausted c' \<and> fired OnReconnectFailed c' = Suc (fired OnReconnectFailed established))"
  using established_eval
    reconnect_exhausted [of established
      "[AtSocket, AtDiscovery EndpointUnreachable, AtSocket, AtDiscovery DiscoveryTimedOut,
        AtSocket, AtSocket, AtDiscovery NoTargets, AtSocket, AtSocket, AtSocket]" False]
  unfolding Let_def by simp

text \<open>
  C7. An initial \<^verbatim>\<open>connect(9222)\<close> on a new client whose discovery succeeds and whose
  socket then fails to open (the socket emits \<^verbatim>\<open>error\<close>, then \<^verbatim>\<open>close\<close>). The
  \<^verbatim>\<open>error\<close> handler only logs, so the promise of \<^verbatim>\<open>connect\<close> is never settled (the
  only effect is the discovery request), and the \<^verbatim>\<open>close\<close> handler schedules a
  reconnection: the retry timer is armed with 1000 ms, and when it fires a second
  discovery request goes out. (A failure at discovery does reject the promise and
  schedules nothing: \<open>initial_discovery_failure\<close>.)
\<close>

theorem initial_socket_failure_retries:
  "(let c = run [Connect 9222 False, SocketCreated, WsError, WsClose] (newClient DEFAULT_OPTIONS)
    in effects c = [HttpGet 9222] \<and> retryTimer c = Some 1000 \<and> retryCount c = 1
       \<and> effects (run [RetryTimerFired False] c) = [HttpGet 9222, HttpGet 9222])"
  by code_simp

text \<open>
  C4, as stated, fails: \<^verbatim>\<open>connect\<close> does not touch \<^verbatim>\<open>messageId\<close>. A client that has
  sent one call (id 1), disconnects and connects again successfully assigns id 2 to its
  next call, not the initial value 1.
\<close>

theorem connect_resets_counter_counterexample:
  "(let c = run [Send ''Runtime.evaluate'' NoParams False, Disconnect,
                 Connect 9222 False, SocketCreated, WsOpen Initial] established
    in messageId (newClient DEFAULT_OPTIONS) = 1
       \<and> last (effects c) = ConnectSettled None
       \<and> isConnected c
       \<and> map_sum id fst (send ''Runtime.evaluate'' NoParams False c) = Inr 2)"
  by code_simp

text \<open>
  C4, amended. The counter is never reset, not even by \<^verbatim>\<open>connect\<close>: on a client with any
  history, after \<^verbatim>\<open>connect\<close> and whatever happens until the next \<^verbatim>\<open>send\<close> (with no other
  \<^verbatim>\<open>send\<close> in between), that \<^verbatim>\<open>send\<close> is assigned the value the counter had before
  \<^verbatim>\<open>connect\<close>, the counter moves on by one, and the id was never registered before in the
  lifetime of the client.
\<close>

theorem connect_keeps_counter:
  assumes "c = run evs0 (newClient opts)"
    and "connect p h c = Inr c1"
    and "\<forall>e \<in> set evs. \<not> sends e"
    and "send m ps t (run evs c1) = Inr (i, c')"
  shows "i = messageId c \<and> messageId c' = messageId c + 1
         \<and> i \<notin> set (registered (effects (run evs c1)))"
proof -
  have "step (Connect p h) c = c1"
    using assms(2) by simp
  then have "run evs c1 = run (Connect p h # evs) c"
    by simp
  moreover have "\<forall>e \<in> set (Connect p h # evs). \<not> sends e"
    using assms(3) by simp
  ultimately have m: "messageId (run evs c1) = messageId c"
    using messageId_run by metis
  have "pendingInv (run evs c1)"
    using assms(1) \<open>run evs c1 = run (Connect p h # evs) c\<close>
    by (simp add: pendingInv_run pendingInv_newClient pendingInv_step del: step.simps)
  then have fresh: "messageId (run evs c1) \<notin> set (registered (effects (run evs c1)))"
    by (auto simp add: pendingInv_def)
  have "i = messageId (run evs c1) \<and> messageId c' = messageId (run evs c1) + 1"
    using assms(4) by (auto simp add: send_def emit_def Let_def split: if_splits)
  with m fresh show ?thesis by simp
qed

theorem connect_keeps_counter_witness:
  "(let c = run [Send ''Runtime.evaluate'' NoParams False, Disconnect] established;
        r = send ''Runtime.evaluate'' NoParams False
              (run [Connect 9222 False, SocketCreated, WsOpen Initial] c)
    in messageId c = 2 \<and> map_sum id fst r = Inr 2)"
proof -
  let ?evs0 = "[Observe OnDisconnect, Observe OnReconnect, Observe OnReconnectFailed,
          Connect 9222 False, SocketCreated, WsOpen Initial,
          Send ''Runtime.evaluate'' NoParams False, Disconnect]"
  let ?c = "run [Send ''Runtime.evaluate'' NoParams False, Disconnect] established"
  let ?r = "send ''Runtime.evaluate'' NoParams False (run [SocketCreated, WsOpen Initial]
              (doConnect Initial False (?c\<lparr>port := 9222, intentionalDisconnect := False, retryCount := 0\<rparr>)))"
  have 1: "?c = run ?evs0 (newClient DEFAULT_OPTIONS)"
    by (simp add: established_def)
  have 2: "connect 9222 False ?c = Inr (doConnect Initial False (?c\<lparr>port := 9222, intentionalDisconnect := False, retryCount := 0\<rparr>))"
    by code_simp
  have 3: "\<forall>e \<in> set [SocketCreated, WsOpen Initial]. \<not> sends e"
    by simp
  have 4: "messageId ?c = 2" by code_simp
  have "\<not> isl ?r" by code_simp
  then obtain i c' where 5: "?r = Inr (i, c')"
    by (metis sum.collapse(2) surj_pair)
  from connect_keeps_counter [OF 1 2 3 5] 4 5 have "map_sum id fst ?r = Inr 2"
    by simp
  moreover have "run [Connect 9222 False, SocketCreated, WsOpen Initial] ?c
     = run [SocketCreated, WsOpen Initial] (doConnect Initial False (?c\<lparr>port := 9222, intentionalDisconnect := False, retryCount := 0\<rparr>))"
    using 2 by simp
  ultimately show ?thesis
    using 4 unfolding Let_def by simp
qed

section \<open>Claims about the action script\<close>

text \<open>
  C2, as stated, fails. The script acts on the first visible target button in document
  order and consults the blocked list only when that button is labelled \<^verbatim>\<open>run\<close>. With an
  \<^verbatim>\<open>accept\<close> button before the \<^verbatim>\<open>run\<close> button, blocked list \<^verbatim>\<open>["rm -rf /"]\<close> and a page
  text that contains \<^verbatim>\<open>rm -rf /\<close>, the script clicks \<^verbatim>\<open>accept\<close> and returns
  \<^verbatim>\<open>clicked_accept\<close>.
\<close>

theorem block_preempts_click_counterexample:
  "(let acceptButton = Element ''BUTTON'' None [] ''accept'' (Some (80, 24)) None;
        runButton = Element ''BUTTON'' None [] ''run'' (Some (80, 24)) None;
        doc = \<lparr>body = [acceptButton, runButton], innerText = ''Accept Run rm -rf /''\<rparr>
    in includes_str (innerText doc) ''rm -rf /''
       \<and> runButton \<in> set (findAllButtons (body doc)) \<and> candidate runButton
       \<and> label runButton = ''run''
       \<and> actionScript [''rm -rf /''] (Some doc) = (''clicked_accept'', Some acceptButton))"
  by code_simp

text \<open>
  C2, amended. When the first visible target button in document order is labelled
  \<^verbatim>\<open>run\<close> and the page text contains some entry of the blocked list, the script returns
  \<^verbatim>\<open>blocked: \<close> followed by the first entry of the list that the page text contains, and
  clicks nothing.
\<close>

theorem block_preempts_run_click:
  assumes "find candidate (findAllButtons (body doc)) = Some b"
    and "label b = ''run''"
    and "s \<in> set blockedCmds"
    and "includes_str (innerText doc) s"
  shows "\<exists>s'. find (includes_str (innerText doc)) blockedCmds = Some s'
           \<and> actionScript blockedCmds (Some doc) = (''blocked: '' @ s', None)"
proof -
  from assms(3,4) obtain s' where "find (includes_str (innerText doc)) blockedCmds = Some s'"
    by (cases "find (includes_str (innerText doc)) blockedCmds") (auto simp add: find_None_iff)
  with assms(1,2) show ?thesis
    by (simp add: actionScript_def scanButtons_find firstBlocked_find)
qed

theorem block_preempts_run_click_witness:
  "(let runButton = Element ''BUTTON'' None [] ''run'' (Some (80, 24)) None;
        acceptButton = Element ''DIV'' (Some ''button'') [] ''accept'' (Some (80, 24)) None;
        doc = \<lparr>body = [runButton, acceptButton], innerText = ''Run Accept sudo rm -rf / now''\<rparr>
    in find candidate (findAllButtons (body doc)) = Some runButton
       \<and> includes_str (innerText doc) ''rm -rf /''
       \<and> actionScript [''mkfs'', ''rm -rf /''] (Some doc) = (''blocked: rm -rf /'', None))"
proof -
  let ?run = "Element ''BUTTON'' None [] ''run'' (Some (80, 24)) None"
  let ?doc = "\<lparr>body = [?run, Element ''DIV'' (Some ''button'') [] ''accept'' (Some (80, 24)) None],
               innerText = ''Run Accept sudo rm -rf / now''\<rparr>"
  have 1: "find candidate (findAllButtons (body ?doc)) = Some ?run" by code_simp
  have 2: "label ?run = ''run''" by simp
  have 3: "''rm -rf /'' \<in> set [''mkfs'', ''rm -rf /'']" by simp
  have 4: "includes_str (innerText ?doc) ''rm -rf /''" by code_simp
  have 5: "find (includes_str (innerText ?doc)) [''mkfs'', ''rm -rf /''] = Some ''rm -rf /''"
    by code_simp
  from block_preempts_run_click [OF 1 2 3 4] 5
  have "actionScript [''mkfs'', ''rm -rf /''] (Some ?doc) = (''blocked: rm -rf /'', None)"
    by simp
  with 1 4 show ?thesis
    unfolding Let_def by blast
qed

section \<open>Claims about the supervisor\<close>

text \<open>
  C8. In every run of the supervisor (timer ticks, commands of the host and events of the
  client in any order) at most one tick is inside the guarded region, and the guard is set
  exactly while one is; the tick that waits, waits for a call that is still pending in the
  client, with its timeout timer armed, so it will be resumed. A tick that fires while the
  guard is set changes nothing. The guard is cleared on every way out of a tick: when
  \<^verbatim>\<open>send\<close> throws before creating the promise, when \<^verbatim>\<open>ws.send\<close> throws and the promise
  is rejected at once, and when the tick is resumed by the result or by a rejection of its
  call.
\<close>

theorem ticks_never_overlap:
  "(let a = execAll xs newAcceptor
    in length (polls a) \<le> 1 \<and> isPollInProgress a = (polls a \<noteq> [])
       \<and> set (polls a) \<subseteq> set (callbacks (cdp a))
       \<and> timers (cdp a) = set (callbacks (cdp a))
       \<and> (\<not> isPollInProgress a \<longrightarrow> \<not> isPollInProgress (task (pollBegin cfg True) a)))
   \<and> (isPollInProgress b \<longrightarrow> task (pollBegin cfg t) b = b)
   \<and> (pollCall cfg t b = Some (Inl e) \<longrightarrow> \<not> isPollInProgress (task (pollBegin cfg t) b))
   \<and> \<not> isPollInProgress (pollEnd r b)
   \<and> (i \<in> set (polls b) \<longrightarrow> \<not> isPollInProgress (continuation (Settled i r) b))"
proof -
  define a where "a = execAll xs newAcceptor"
  have w: "waitingInv a"
    unfolding a_def by (rule waitingInv_execAll) (rule waitingInv_newAcceptor)
  then have 1: "length (polls a) \<le> 1 \<and> isPollInProgress a = (polls a \<noteq> [])
       \<and> set (polls a) \<subseteq> set (callbacks (cdp a))
       \<and> timers (cdp a) = set (callbacks (cdp a))"
    by (simp add: waitingInv_def guardInv_def pendingInv_def)
  have 2: "\<not> isPollInProgress a \<longrightarrow> \<not> isPollInProgress (task (pollBegin cfg True) a)"
    using w failed_tick_clears_guard by blast
  have 3: "isPollInProgress b \<longrightarrow> task (pollBegin cfg t) b = b"
    by (auto intro!: task_skip simp add: pollBegin_def pollCall_def)
  have 4: "pollCall cfg t b = Some (Inl e) \<longrightarrow> \<not> isPollInProgress (task (pollBegin cfg t) b)"
    by (simp add: task_def pollBegin_def Let_def pollEnd_fields)
  have 5: "\<not> isPollInProgress (pollEnd r b)"
    by (simp add: pollEnd_fields)
  have 6: "i \<in> set (polls b) \<longrightarrow> \<not> isPollInProgress (continuation (Settled i r) b)"
    by (simp add: pollEnd_fields)
  from 1 2 3 4 5 6 show ?thesis
    unfolding a_def [symmetric] Let_def by blast
qed

theorem ticks_never_overlap_witness:
  "(let a = execAll [Start False, Client SocketCreated, Client (WsOpen Initial),
                     Tick None False, Tick None False, Tick (Some [''mkfs'']) True] newAcceptor
    in isPollInProgress a \<and> polls a = [1] \<and> callbacks (cdp a) = [1]
       \<and> task (pollBegin None False) a = a
       \<and> \<not> isPollInProgress (continuation (Settled 1 (Inl ConnectionClosed)) a))"
proof -
  let ?xs = "[Start False, Client SocketCreated, Client (WsOpen Initial),
              Tick None False, Tick None False, Tick (Some [''mkfs'']) True]"
  let ?a = "execAll ?xs newAcceptor"
  have ev: "isPollInProgress ?a \<and> polls ?a = [1] \<and> callbacks (cdp ?a) = [1]"
    by code_simp
  from ticks_never_overlap
         [where xs = ?xs and cfg = None and b = ?a and t = False and i = 1
            and r = "Inl ConnectionClosed"] ev
  have "task (pollBegin None False) ?a = ?a
        \<and> \<not> isPollInProgress (continuation (Settled 1 (Inl ConnectionClosed)) ?a)"
    by (simp add: Let_def del: execAll.simps exec.simps continuation.simps)
  with ev show ?thesis
    unfolding Let_def by blast
qed

text \<open>
  C10. A tick that fires while the supervisor is disposed or not running, or while the
  client's socket is not open, makes no call and leaves the whole state (supervisor, client
  and everything observable) as it was; and the call a tick makes never fails with the
  not-connected error.
\<close>

theorem tick_returns_early:
  "(disposed a \<or> \<not> isRunning a \<or> \<not> isConnected (cdp a)
      \<longrightarrow> pollCall cfg t a = None \<and> task (pollBegin cfg t) a = a)
   \<and> pollCall cfg t a \<noteq> Some (Inl NotConnected)"
proof
  show "disposed a \<or> \<not> isRunning a \<or> \<not> isConnected (cdp a)
      \<longrightarrow> pollCall cfg t a = None \<and> task (pollBegin cfg t) a = a"
    by (auto intro!: task_skip simp add: pollCall_def pollBegin_def)
  show "pollCall cfg t a \<noteq> Some (Inl NotConnected)"
    by (auto simp add: pollCall_def isConnected_def send_def Let_def split: if_splits)
qed

theorem tick_returns_early_witness:
  "(let a = execAll [Start False, Client SocketCreated, Client (WsOpen Initial), Client WsClose]
              newAcceptor
    in isRunning a \<and> \<not> disposed a \<and> \<not> isConnected (cdp a)
       \<and> pollCall None False a = None \<and> task (pollBegin None False) a = a)"
proof -
  let ?a = "execAll [Start False, Client SocketCreated, Client (WsOpen Initial), Client WsClose]
              newAcceptor"
  have ev: "isRunning ?a \<and> \<not> disposed ?a \<and> \<not> isConnected (cdp ?a)"
    by code_simp
  with tick_returns_early [of ?a None False]
  have "pollCall None False ?a = None \<and> task (pollBegin None False) ?a = ?a"
    by blast
  with ev show ?thesis
    unfolding Let_def by blast
qed

end
